theory Spec2Isabelle
  imports Main "HOL-Library.Word" "HOL-Library.AList" "HOL-Library.Code_Target_Nat"
begin

unbundle bit_operations_syntax

section \<open>JavaScript values shared by the components\<close>

text \<open>
  A JavaScript string is a sequence of UTF-16 code units, a Node \<open>Buffer\<close> a sequence of
  bytes. String literals of the source are written \<open>str ''...''\<close>.
\<close>

type_synonym byte = "8 word"
type_synonym jschar = "16 word"
type_synonym jsstring = "jschar list"

definition str :: "string \<Rightarrow> jsstring" where
  "str s = map of_char s"

text \<open>The regular expression classes \<open>\w\<close> and \<open>\d\<close> (no \<open>u\<close> or \<open>i\<close> flag: ASCII only).\<close>

definition is_digit :: "jschar \<Rightarrow> bool" where
  "is_digit c = (48 \<le> c \<and> c \<le> 57)"

definition is_word_char :: "jschar \<Rightarrow> bool" where
  "is_word_char c = ((97 \<le> c \<and> c \<le> 122) \<or> (65 \<le> c \<and> c \<le> 90) \<or> is_digit c \<or> c = 95)"

section \<open>Format detection: \<open>selectFsCache\<close> (src/cache/autocache.ts)\<close>

text \<open>
  \<open>file.name.match(/\.(\w+)$/)\<close>: the leftmost dot that is followed, up to the end of the
  name, by one or more word characters; the result is the captured group.
\<close>

fun ext_match :: "jsstring \<Rightarrow> jsstring option" where
  "ext_match [] = None"
| "ext_match (c # cs) =
     (if c = 46 \<and> cs \<noteq> [] \<and> list_all is_word_char cs then Some cs else ext_match cs)"

text \<open>\<open>file.name.match(/^main_file_cache\.idx\d+$/)\<close>\<close>

definition idx_match :: "jsstring \<Rightarrow> bool" where
  "idx_match name =
     (let p = str ''main_file_cache.idx''; ds = drop (length p) name
      in take (length p) name = p \<and> ds \<noteq> [] \<and> list_all is_digit ds)"

record counts =
  jcachecount :: nat
  datcount :: nat
  dat2count :: nat
  jagcount :: nat
  idxcount :: nat

definition count_file :: "jsstring \<Rightarrow> counts \<Rightarrow> counts" where
  "count_file name c =
     (let ext = ext_match name;
          c1 = (if ext = Some (str ''jcache'') then c\<lparr>jcachecount := jcachecount c + 1\<rparr> else c);
          c2 = (if ext = Some (str ''dat2'') then c1\<lparr>dat2count := dat2count c1 + 1\<rparr> else c1);
          c3 = (if ext = Some (str ''dat'') then c2\<lparr>datcount := datcount c2 + 1\<rparr> else c2);
          c4 = (if ext = Some (str ''jag'') then c3\<lparr>jagcount := jagcount c3 + 1\<rparr> else c3)
      in (if idx_match name then c4\<lparr>idxcount := idxcount c4 + 1\<rparr> else c4))"

fun count_files :: "jsstring list \<Rightarrow> counts \<Rightarrow> counts" where
  "count_files [] c = c"
| "count_files (name # names) c = count_files names (count_file name c)"

definition zero_counts :: counts where
  "zero_counts = \<lparr>jcachecount = 0, datcount = 0, dat2count = 0, jagcount = 0, idxcount = 0\<rparr>"

text \<open>
  The access layer handed to the detector: \<open>fs instanceof CLIScriptFS\<close> (with its
  directory), \<open>fs instanceof WebFsScriptFS\<close> (with its optional root handle), or any
  other implementation of \<open>ScriptFS\<close>.
\<close>

datatype scriptfs =
    CLIScriptFS jsstring
  | WebFsScriptFS "nat option"
  | OtherScriptFS

text \<open>
  The store the detector constructs. The constructors themselves (\<open>GameCacheLoader\<close>,
  \<open>WasmGameCacheLoader\<close>, \<open>ClassicFileSource.create\<close>) live in other modules; the model
  records which one is invoked and with which arguments.
\<close>

datatype cache_source =
    GameCacheLoader jsstring bool
  | WasmGameCacheLoader nat
  | LegacyFileSource jsstring jsstring
  | ClassicFileSource

datatype select_error =
    NoCacheFilesFound
  | NeedFsWithHardDiskBacking
  | LegacyRequiresFilesystemAccess
  | CouldntDetectCacheType

definition maxcount :: "counts \<Rightarrow> nat" where
  "maxcount c = Max {jcachecount c, datcount c, dat2count c, jagcount c, idxcount c}"

text \<open>
  The checks after the counting loop, in the order of the source. \<open>writable\<close> is
  \<open>opts?.writable\<close> (\<open>None\<close> when absent). The branches for \<open>datcount\<close> and
  \<open>dat2count\<close> have empty bodies in the source and fall through.
\<close>

definition select_by_counts :: "scriptfs \<Rightarrow> bool option \<Rightarrow> counts \<Rightarrow> select_error + cache_source" where
  "select_by_counts fs writable c =
     (let m = maxcount c in
      if m = 0 then Inl NoCacheFilesFound
      else
        (case (if m = jcachecount c
               then (case fs of
                       CLIScriptFS dir \<Rightarrow>
                         Some (Inr (GameCacheLoader dir (case writable of None \<Rightarrow> False | Some w \<Rightarrow> w)))
                     | WebFsScriptFS h \<Rightarrow>
                         (case h of None \<Rightarrow> Some (Inl NeedFsWithHardDiskBacking)
                                  | Some r \<Rightarrow> Some (Inr (WasmGameCacheLoader r)))
                     | OtherScriptFS \<Rightarrow> None)
               else None) of
           Some r \<Rightarrow> r
         | None \<Rightarrow>
             if m = idxcount c \<and> dat2count c > 0
             then (case fs of
                     CLIScriptFS dir \<Rightarrow> Inr (LegacyFileSource dir (str ''rs2_727.ini''))
                   | _ \<Rightarrow> Inl LegacyRequiresFilesystemAccess)
             else if m = jagcount c then Inr ClassicFileSource
             else Inl CouldntDetectCacheType))"

definition selectFsCache :: "scriptfs \<Rightarrow> bool option \<Rightarrow> jsstring list \<Rightarrow> select_error + cache_source" where
  "selectFsCache fs writable files = select_by_counts fs writable (count_files files zero_counts)"


section \<open>The legacy record store: \<open>LegacyFileSource\<close>\<close>

text \<open>
  The store keeps the path of the data blob and a \<open>Map\<close> from category number (major) to
  the path of its index file. The files themselves are read through \<open>fs.promises\<close>; the
  file system is a map from paths to contents, a missing path is a failed read.
\<close>

type_synonym path = jsstring
type_synonym filesystem = "path \<rightharpoonup> byte list"

record legacy_store =
  cachedir :: path
  datFile :: path
  indexFiles :: "nat \<rightharpoonup> path"

text \<open>
  The errors of the store. The source throws \<open>Error\<close> objects that differ by message; the
  \<open>catch\<close> blocks of \<open>getFile\<close> and \<open>getCacheIndex\<close> wrap the message of whatever was
  thrown inside the \<open>try\<close>.
\<close>

datatype inner_error =
    FileNotFoundInIndex nat nat
  | FileHasZeroSize nat nat
  | ExpectedToReadButGot nat nat
  | NoSuchFile path
  | OutOfRange

datatype store_error =
    IndexFileNotFoundInLegacyCache nat
  | FailedToReadFile nat nat inner_error
  | IndexFileNotFound nat
  | FailedToReadIndex nat inner_error

definition readFile :: "filesystem \<Rightarrow> path \<Rightarrow> inner_error + byte list" where
  "readFile fs p = (case fs p of None \<Rightarrow> Inl (NoSuchFile p) | Some bs \<Rightarrow> Inr bs)"

text \<open>\<open>buf.readUIntBE(offset, 3)\<close>: a range error when the three bytes are not all inside.\<close>

definition readUIntBE3 :: "byte list \<Rightarrow> nat \<Rightarrow> inner_error + nat" where
  "readUIntBE3 buf off =
     (if off + 3 > length buf then Inl OutOfRange
      else Inr (unat (buf ! off) * 65536 + unat (buf ! (off + 1)) * 256 + unat (buf ! (off + 2))))"

text \<open>
  \<open>Buffer.alloc(size)\<close> followed by \<open>fileHandle.read(buffer, 0, size, offset)\<close>: the bytes
  of the file from \<open>offset\<close>, at most \<open>size\<close> of them, land at the start of a zero-filled
  buffer; \<open>bytesRead\<close> is their number.
\<close>

definition read_at :: "byte list \<Rightarrow> nat \<Rightarrow> nat \<Rightarrow> byte list \<times> nat" where
  "read_at file sz offset =
     (let got = take sz (drop offset file)
      in (got @ replicate (sz - length got) 0, length got))"

definition getFile :: "filesystem \<Rightarrow> legacy_store \<Rightarrow> nat \<Rightarrow> nat \<Rightarrow> store_error + byte list" where
  "getFile fs st major minor =
     (case indexFiles st major of
        None \<Rightarrow> Inl (IndexFileNotFoundInLegacyCache major)
      | Some indexPath \<Rightarrow>
          (case (case readFile fs indexPath of
                   Inl e \<Rightarrow> Inl e
                 | Inr indexBuffer \<Rightarrow>
                     (let entryOffset = minor * 6 in
                      if entryOffset + 6 > length indexBuffer
                      then Inl (FileNotFoundInIndex major minor)
                      else
                        (case readUIntBE3 indexBuffer entryOffset of
                           Inl e \<Rightarrow> Inl e
                         | Inr sz \<Rightarrow>
                             (case readUIntBE3 indexBuffer (entryOffset + 3) of
                                Inl e \<Rightarrow> Inl e
                              | Inr offset \<Rightarrow>
                                  if sz = 0 then Inl (FileHasZeroSize major minor)
                                  else
                                    (case readFile fs (datFile st) of
                                       Inl e \<Rightarrow> Inl e
                                     | Inr blob \<Rightarrow>
                                         (let (buffer, bytesRead) = read_at blob sz offset in
                                          if bytesRead \<noteq> sz
                                          then Inl (ExpectedToReadButGot sz bytesRead)
                                          else Inr buffer)))))) of
             Inl e \<Rightarrow> Inl (FailedToReadFile major minor e)
           | Inr buffer \<Rightarrow> Inr buffer))"

text \<open>One element of the listing \<open>getCacheIndex\<close> returns.\<close>

record cache_index =
  ci_major :: nat
  ci_minor :: nat
  ci_crc :: nat
  ci_version :: nat
  ci_size :: nat
  ci_name :: "jsstring option"
  ci_subindexcount :: nat
  ci_subindices :: "nat list"
  ci_subnames :: "jsstring list option"
  ci_uncompressed_crc :: nat
  ci_uncompressed_size :: nat

definition mk_index :: "nat \<Rightarrow> nat \<Rightarrow> nat \<Rightarrow> cache_index" where
  "mk_index major minor sz =
     \<lparr>ci_major = major, ci_minor = minor, ci_crc = 0, ci_version = 0, ci_size = sz,
      ci_name = None, ci_subindexcount = 1, ci_subindices = [0], ci_subnames = None,
      ci_uncompressed_crc = 0, ci_uncompressed_size = sz\<rparr>"

text \<open>
  The result is a JavaScript array filled by \<open>indices[minor] = ...\<close>: a position never
  assigned is a hole (\<open>None\<close>), and assigning past the end extends the array with holes.
\<close>

type_synonym 'a jsarray = "'a option list"

definition js_set :: "'a jsarray \<Rightarrow> nat \<Rightarrow> 'a \<Rightarrow> 'a jsarray" where
  "js_set xs i v =
     (if i < length xs then xs[i := Some v]
      else xs @ replicate (i - length xs) None @ [Some v])"

definition js_get :: "'a jsarray \<Rightarrow> nat \<Rightarrow> 'a option" where
  "js_get xs i = (if i < length xs then xs ! i else None)"

function index_loop ::
  "byte list \<Rightarrow> nat \<Rightarrow> nat \<Rightarrow> nat \<Rightarrow> cache_index jsarray \<Rightarrow> inner_error + cache_index jsarray" where
  "index_loop indexBuffer major numEntries minor indices =
     (if minor < numEntries
      then (case readUIntBE3 indexBuffer (minor * 6) of
              Inl e \<Rightarrow> Inl e
            | Inr sz \<Rightarrow>
                index_loop indexBuffer major numEntries (Suc minor)
                  (if sz > 0 then js_set indices minor (mk_index major minor sz) else indices))
      else Inr indices)"
  by pat_completeness auto
termination
  by (relation "measure (\<lambda>(b, major, n, minor, xs). n - minor)") auto

declare index_loop.simps [simp del]

definition getCacheIndex :: "filesystem \<Rightarrow> legacy_store \<Rightarrow> nat \<Rightarrow> store_error + cache_index jsarray" where
  "getCacheIndex fs st major =
     (case indexFiles st major of
        None \<Rightarrow> Inl (IndexFileNotFound major)
      | Some indexPath \<Rightarrow>
          (case (case readFile fs indexPath of
                   Inl e \<Rightarrow> Inl e
                 | Inr indexBuffer \<Rightarrow>
                     index_loop indexBuffer major (length indexBuffer div 6) 0 []) of
             Inl e \<Rightarrow> Inl (FailedToReadIndex major e)
           | Inr indices \<Rightarrow> Inr indices))"

text \<open>
  The on-disk layout the claims speak of: slot \<open>i\<close> of an index file is six bytes, a
  big-endian 24-bit size followed by a big-endian 24-bit offset.
\<close>

definition be24 :: "byte \<Rightarrow> byte \<Rightarrow> byte \<Rightarrow> nat" where
  "be24 b0 b1 b2 = 2 ^ 16 * unat b0 + 2 ^ 8 * unat b1 + unat b2"

definition slot_size :: "byte list \<Rightarrow> nat \<Rightarrow> nat" where
  "slot_size index i = be24 (index ! (6 * i)) (index ! (6 * i + 1)) (index ! (6 * i + 2))"

definition slot_offset :: "byte list \<Rightarrow> nat \<Rightarrow> nat" where
  "slot_offset index i = be24 (index ! (6 * i + 3)) (index ! (6 * i + 4)) (index ! (6 * i + 5))"


section \<open>Numbers and text of the JavaScript runtime\<close>

text \<open>
  A JavaScript number, as far as this code produces one: an integer, an infinity or
  \<open>NaN\<close>. (\<open>-0\<close> and \<open>+0\<close> are the same \<open>Map\<close> key and are equal under \<open>===\<close>; both
  are \<open>Num 0\<close>.)
\<close>

datatype jsnumber = Num int | PosInfinity | NegInfinity | NaN

function bit_length :: "nat \<Rightarrow> nat" where
  "bit_length n = (if n = 0 then 0 else Suc (bit_length (n div 2)))"
  by pat_completeness auto
termination
  by (relation "measure id") auto

declare bit_length.simps [simp del]

text \<open>
  The double nearest to a natural number (ties to even); \<open>None\<close> is \<open>Infinity\<close>. Below
  \<open>2^53\<close> every integer is a double.
\<close>

definition to_double :: "nat \<Rightarrow> nat option" where
  "to_double n =
     (if n < 2 ^ 53 then Some n
      else
        (let e = bit_length n - 53;
             q = n div 2 ^ e;
             r = n mod 2 ^ e;
             h = 2 ^ (e - 1);
             q' = (if r > h \<or> (r = h \<and> odd q) then q + 1 else q);
             v = q' * 2 ^ e
         in if v \<ge> 2 ^ 1024 then None else Some v))"

text \<open>\<open>`${n}`\<close> and \<open>n.toString(16)\<close> for a non-negative integer.\<close>

definition digit_char :: "nat \<Rightarrow> jschar" where
  "digit_char d = (if d < 10 then of_nat (48 + d) else of_nat (87 + d))"

function show_radix :: "nat \<Rightarrow> nat \<Rightarrow> jsstring" where
  "show_radix r n =
     (if r < 2 \<or> n < r then [digit_char n]
      else show_radix r (n div r) @ [digit_char (n mod r)])"
  by pat_completeness auto
termination
  by (relation "measure snd") auto

declare show_radix.simps [simp del]

text \<open>
  White space as \<open>String.prototype.trim\<close>, the class \<open>\s\<close> and \<open>parseInt\<close> understand it:
  the WhiteSpace and LineTerminator code points.
\<close>

definition is_ws :: "jschar \<Rightarrow> bool" where
  "is_ws c =
     ((9 \<le> c \<and> c \<le> 13) \<or> c = 32 \<or> c = 160 \<or> c = 5760 \<or> (8192 \<le> c \<and> c \<le> 8202) \<or>
      c = 8232 \<or> c = 8233 \<or> c = 8239 \<or> c = 8287 \<or> c = 12288 \<or> c = 65279)"

definition trim :: "jsstring \<Rightarrow> jsstring" where
  "trim s = rev (dropWhile is_ws (rev (dropWhile is_ws s)))"

definition startsWith :: "jsstring \<Rightarrow> jsstring \<Rightarrow> bool" where
  "startsWith s p = (take (length p) s = p)"

text \<open>\<open>content.split('\n')\<close>\<close>

fun split_lines :: "jsstring \<Rightarrow> jsstring \<Rightarrow> jsstring list" where
  "split_lines cur [] = [rev cur]"
| "split_lines cur (c # cs) =
     (if c = 10 then rev cur # split_lines [] cs else split_lines (c # cur) cs)"

text \<open>
  \<open>s.split(/\s+/)\<close>: every maximal run of white space separates two parts; a run at the
  start or at the end leaves an empty part there.
\<close>

fun split_ws :: "bool \<Rightarrow> jsstring \<Rightarrow> jsstring \<Rightarrow> jsstring list" where
  "split_ws in_ws cur [] = [rev cur]"
| "split_ws in_ws cur (c # cs) =
     (if is_ws c
      then (if in_ws then split_ws True [] cs else rev cur # split_ws True [] cs)
      else split_ws False (c # cur) cs)"

text \<open>
  \<open>parseInt(s)\<close> with no radix: leading white space, an optional sign, an optional
  \<open>0x\<close>/\<open>0X\<close> prefix that selects radix 16, then the longest run of digits of the radix;
  \<open>NaN\<close> when that run is empty. What follows the digits is ignored.
\<close>

definition digit_val :: "nat \<Rightarrow> jschar \<Rightarrow> nat option" where
  "digit_val radix c =
     (let u = unat c;
          v = (if 48 \<le> u \<and> u \<le> 57 then Some (u - 48)
               else if 97 \<le> u \<and> u \<le> 122 then Some (u - 87)
               else if 65 \<le> u \<and> u \<le> 90 then Some (u - 55)
               else None)
      in case v of None \<Rightarrow> None | Some d \<Rightarrow> if d < radix then Some d else None)"

fun digits_value :: "nat \<Rightarrow> nat \<Rightarrow> jsstring \<Rightarrow> (nat \<times> nat)" where
  "digits_value radix acc [] = (acc, 0)"
| "digits_value radix acc (c # cs) =
     (case digit_val radix c of
        None \<Rightarrow> (acc, 0)
      | Some d \<Rightarrow> (let (v, k) = digits_value radix (acc * radix + d) cs in (v, Suc k)))"

definition parseInt :: "jsstring \<Rightarrow> jsnumber" where
  "parseInt s =
     (let s1 = dropWhile is_ws s;
          neg = (case s1 of [] \<Rightarrow> False | c # cs \<Rightarrow> c = 45);
          s2 = (case s1 of [] \<Rightarrow> [] | c # cs \<Rightarrow> if c = 45 \<or> c = 43 then cs else s1);
          hex = (case s2 of a # b # cs \<Rightarrow> a = 48 \<and> (b = 120 \<or> b = 88) | _ \<Rightarrow> False);
          s3 = (if hex then drop 2 s2 else s2);
          (v, k) = digits_value (if hex then 16 else 10) 0 s3
      in if k = 0 then NaN
         else (case to_double v of
                 None \<Rightarrow> if neg then NegInfinity else PosInfinity
               | Some d \<Rightarrow> Num (if neg then - int d else int d)))"

section \<open>The opcode table: \<open>CS2OpcodeMappings\<close>\<close>

record cs2_mapping =
  opcode :: jsnumber
  name :: jsstring
  returnType :: jsstring
  paramTypes :: "jsstring list"

text \<open>
  The two \<open>Map\<close>s of the class, as association lists in insertion order: \<open>Map.set\<close> on a
  key already present replaces its value in place, on a new key appends.
\<close>

record cs2_mappings =
  mappings :: "(jsnumber \<times> cs2_mapping) list"
  nameToOpcode :: "(jsstring \<times> jsnumber) list"

definition new_mappings :: cs2_mappings where
  "new_mappings = \<lparr>mappings = [], nameToOpcode = []\<rparr>"

text \<open>One iteration of the loop over the lines.\<close>

definition parse_line :: "cs2_mappings \<Rightarrow> jsstring \<Rightarrow> cs2_mappings" where
  "parse_line loader line =
     (let trimmed = trim line in
      if trimmed = [] \<or> startsWith trimmed (str ''#'') \<or> startsWith trimmed (str ''//'')
      then loader
      else
        (let parts = split_ws False [] trimmed in
         if length parts < 3 then loader
         else
           (let opc = parseInt (parts ! 0);
                nm = parts ! 1;
                rt = parts ! 2;
                pts = drop 3 parts
            in if opc = NaN then loader
               else
                 (let mapping = \<lparr>opcode = opc, name = nm, returnType = rt, paramTypes = pts\<rparr>
                  in loader\<lparr>mappings := AList.update opc mapping (mappings loader),
                            nameToOpcode := AList.update nm opc (nameToOpcode loader)\<rparr>))))"

fun parse_lines :: "cs2_mappings \<Rightarrow> jsstring list \<Rightarrow> cs2_mappings" where
  "parse_lines loader [] = loader"
| "parse_lines loader (line # lines) = parse_lines (parse_line loader line) lines"

text \<open>
  \<open>parseFromString\<close> returns the loader and logs one line with the size of the
  \<open>mappings\<close> table.
\<close>

definition parseFromString :: "jsstring \<Rightarrow> cs2_mappings \<times> jsstring list" where
  "parseFromString content =
     (let loader = parse_lines new_mappings (split_lines [] content)
      in (loader,
          [str ''Loaded '' @ show_radix 10 (length (mappings loader)) @ str '' CS2 opcode mappings'']))"

definition getMapping :: "cs2_mappings \<Rightarrow> jsnumber \<Rightarrow> cs2_mapping option" where
  "getMapping t opc = map_of (mappings t) opc"

definition getOpcodeByName :: "cs2_mappings \<Rightarrow> jsstring \<Rightarrow> jsnumber option" where
  "getOpcodeByName t nm = map_of (nameToOpcode t) nm"

definition getAllMappings :: "cs2_mappings \<Rightarrow> cs2_mapping list" where
  "getAllMappings t = map snd (mappings t)"

definition hasOpcode :: "cs2_mappings \<Rightarrow> jsnumber \<Rightarrow> bool" where
  "hasOpcode t opc = (map_of (mappings t) opc \<noteq> None)"


section \<open>UTF-8 as Node's \<open>Buffer\<close> converts it\<close>

definition is_high_surrogate :: "jschar \<Rightarrow> bool" where
  "is_high_surrogate c = (0xD800 \<le> c \<and> c \<le> 0xDBFF)"

definition is_low_surrogate :: "jschar \<Rightarrow> bool" where
  "is_low_surrogate c = (0xDC00 \<le> c \<and> c \<le> 0xDFFF)"

text \<open>The bytes of one code point below \<open>0x110000\<close>.\<close>

definition utf8_bytes :: "nat \<Rightarrow> byte list" where
  "utf8_bytes cp =
     (if cp < 0x80 then [of_nat cp]
      else if cp < 0x800 then [of_nat (0xC0 + cp div 64), of_nat (0x80 + cp mod 64)]
      else if cp < 0x10000 then
        [of_nat (0xE0 + cp div 4096), of_nat (0x80 + cp div 64 mod 64), of_nat (0x80 + cp mod 64)]
      else
        [of_nat (0xF0 + cp div 262144), of_nat (0x80 + cp div 4096 mod 64),
         of_nat (0x80 + cp div 64 mod 64), of_nat (0x80 + cp mod 64)])"

text \<open>
  \<open>Buffer.from(s, 'utf8')\<close>: a high surrogate followed by a low one is one code point of
  four bytes; a surrogate on its own is written as U+FFFD.
\<close>

fun utf8_encode :: "jsstring \<Rightarrow> byte list" where
  "utf8_encode [] = []"
| "utf8_encode (c # cs) =
     (if is_high_surrogate c
      then (case cs of
              [] \<Rightarrow> utf8_bytes 0xFFFD
            | d # ds \<Rightarrow>
                if is_low_surrogate d
                then utf8_bytes (0x10000 + (unat c - 0xD800) * 0x400 + (unat d - 0xDC00))
                       @ utf8_encode ds
                else utf8_bytes 0xFFFD @ utf8_encode cs)
      else if is_low_surrogate c then utf8_bytes 0xFFFD @ utf8_encode cs
      else utf8_bytes (unat c) @ utf8_encode cs)"

text \<open>The code units of one decoded code point.\<close>

definition utf16_units :: "nat \<Rightarrow> jsstring" where
  "utf16_units cp =
     (if cp < 0x10000 then [of_nat cp]
      else [of_nat (0xD800 + (cp - 0x10000) div 0x400), of_nat (0xDC00 + (cp - 0x10000) mod 0x400)])"

text \<open>
  \<open>buf.toString('utf8')\<close>: the decoder replaces every maximal ill-formed part by one
  U+FFFD and goes on with the byte that ended it. \<open>utf8_cont needed cp lower upper\<close> is
  the decoder inside a sequence: \<open>needed\<close> bytes are still to come, the next one within
  \<open>lower..upper\<close>. No byte order mark is removed.
\<close>

fun utf8_decode :: "byte list \<Rightarrow> jsstring"
  and utf8_cont :: "nat \<Rightarrow> nat \<Rightarrow> nat \<Rightarrow> nat \<Rightarrow> byte list \<Rightarrow> jsstring" where
  "utf8_decode [] = []"
| "utf8_decode (b # bs) =
     (let u = unat b in
      if u < 0x80 then of_nat u # utf8_decode bs
      else if 0xC2 \<le> u \<and> u \<le> 0xDF then utf8_cont 1 (u mod 32) 0x80 0xBF bs
      else if 0xE0 \<le> u \<and> u \<le> 0xEF
        then utf8_cont 2 (u mod 16) (if u = 0xE0 then 0xA0 else 0x80) (if u = 0xED then 0x9F else 0xBF) bs
      else if 0xF0 \<le> u \<and> u \<le> 0xF4
        then utf8_cont 3 (u mod 8) (if u = 0xF0 then 0x90 else 0x80) (if u = 0xF4 then 0x8F else 0xBF) bs
      else 0xFFFD # utf8_decode bs)"
| "utf8_cont needed cp lower upper [] = [0xFFFD]"
| "utf8_cont needed cp lower upper (b # bs) =
     (let u = unat b in
      if u < lower \<or> upper < u then 0xFFFD # utf8_decode (b # bs)
      else if needed \<le> 1 then utf16_units (cp * 64 + u mod 64) @ utf8_decode bs
      else utf8_cont (needed - 1) (cp * 64 + u mod 64) 0x80 0xBF bs)"

section \<open>The instruction codec: \<open>Build727ClientscriptObfuscation\<close>\<close>

text \<open>The decode/encode state: \<open>state.buffer\<close>, \<open>state.scan\<close>, \<open>state.endoffset\<close>.\<close>

record cs_state =
  buffer :: "byte list"
  scan :: nat
  endoffset :: nat

datatype imm_value = Null | ImmNumber jsnumber | ImmString jsstring

text \<open>The object \<open>readOpcode\<close> returns and \<open>writeOpCode\<close> takes.\<close>

record instruction = cs2_mapping +
  imm :: jsnumber
  imm_obj :: imm_value

datatype codec_error = RangeError

text \<open>
  The accessors of \<open>Buffer\<close>. A read or write that does not fit between \<open>offset\<close> and the
  end of the buffer throws. A write checks its value against the range of the width
  first; \<open>NaN\<close> passes that comparison and is stored as zero.
\<close>

definition readUInt16BE :: "byte list \<Rightarrow> nat \<Rightarrow> codec_error + nat" where
  "readUInt16BE buf off =
     (if off + 2 > length buf then Inl RangeError
      else Inr (unat (buf ! off) * 256 + unat (buf ! (off + 1))))"

definition readInt32BE :: "byte list \<Rightarrow> nat \<Rightarrow> codec_error + int" where
  "readInt32BE buf off =
     (if off + 4 > length buf then Inl RangeError
      else
        (let u = int (unat (buf ! off)) * 16777216 + int (unat (buf ! (off + 1))) * 65536
                 + int (unat (buf ! (off + 2))) * 256 + int (unat (buf ! (off + 3)))
         in Inr (if u \<ge> 2147483648 then u - 4294967296 else u)))"

definition write_bytes :: "byte list \<Rightarrow> nat \<Rightarrow> byte list \<Rightarrow> byte list" where
  "write_bytes buf off bs = take off buf @ bs @ drop (off + length bs) buf"

definition writeUInt16BE :: "byte list \<Rightarrow> jsnumber \<Rightarrow> nat \<Rightarrow> codec_error + byte list" where
  "writeUInt16BE buf v off =
     (case v of
        PosInfinity \<Rightarrow> Inl RangeError
      | NegInfinity \<Rightarrow> Inl RangeError
      | NaN \<Rightarrow> if off + 2 > length buf then Inl RangeError else Inr (write_bytes buf off [0, 0])
      | Num i \<Rightarrow>
          if i > 65535 \<or> i < 0 then Inl RangeError
          else if off + 2 > length buf then Inl RangeError
          else Inr (write_bytes buf off [of_int (i div 256), of_int i]))"

definition writeInt32BE :: "byte list \<Rightarrow> jsnumber \<Rightarrow> nat \<Rightarrow> codec_error + byte list" where
  "writeInt32BE buf v off =
     (case v of
        PosInfinity \<Rightarrow> Inl RangeError
      | NegInfinity \<Rightarrow> Inl RangeError
      | NaN \<Rightarrow> if off + 4 > length buf then Inl RangeError else Inr (write_bytes buf off [0, 0, 0, 0])
      | Num i \<Rightarrow>
          if i > 2147483647 \<or> i < - 2147483648 then Inl RangeError
          else if off + 4 > length buf then Inl RangeError
          else Inr (write_bytes buf off
                      [of_int (i div 16777216), of_int (i div 65536), of_int (i div 256), of_int i]))"

definition writeUInt8 :: "byte list \<Rightarrow> nat \<Rightarrow> nat \<Rightarrow> codec_error + byte list" where
  "writeUInt8 buf v off =
     (if v > 255 then Inl RangeError
      else if off + 1 > length buf then Inl RangeError
      else Inr (write_bytes buf off [of_nat v]))"

text \<open>
  \<open>source.copy(target, targetStart)\<close>: copies what fits and drops the rest without an
  error.
\<close>

definition copy :: "byte list \<Rightarrow> byte list \<Rightarrow> nat \<Rightarrow> byte list" where
  "copy source target targetStart =
     (if targetStart \<ge> length target \<or> source = [] then target
      else write_bytes target targetStart (take (length target - targetStart) source))"

text \<open>\<open>buf[i]\<close>: \<open>undefined\<close> outside the buffer.\<close>

definition byte_at :: "byte list \<Rightarrow> nat \<Rightarrow> byte option" where
  "byte_at buf i = (if i < length buf then Some (buf ! i) else None)"

text \<open>\<open>buf.toString('utf8', start, end)\<close>: the range is cut to the buffer.\<close>

definition toString_utf8 :: "byte list \<Rightarrow> nat \<Rightarrow> nat \<Rightarrow> jsstring" where
  "toString_utf8 buf start end' = utf8_decode (take (end' - start) (drop start buf))"

text \<open>\<open>while (state.scan < state.endoffset && state.buffer[state.scan] !== 0) state.scan++\<close>\<close>

function scan_string :: "byte list \<Rightarrow> nat \<Rightarrow> nat \<Rightarrow> nat" where
  "scan_string buf endoff sc =
     (if sc < endoff \<and> byte_at buf sc \<noteq> Some 0 then scan_string buf endoff (Suc sc) else sc)"
  by pat_completeness auto
termination
  by (relation "measure (\<lambda>(buf, endoff, sc). endoff - sc)") auto

declare scan_string.simps [simp del]

definition mk_instruction ::
  "nat \<Rightarrow> jsnumber \<Rightarrow> imm_value \<Rightarrow> jsstring \<Rightarrow> jsstring \<Rightarrow> jsstring list \<Rightarrow> instruction" where
  "mk_instruction rawOpcode i obj nm rt pts =
     \<lparr>opcode = Num (int rawOpcode), name = nm, returnType = rt, paramTypes = pts,
      imm = i, imm_obj = obj\<rparr>"

text \<open>
  \<open>readOpcode\<close> returns the instruction; the model also returns the state it leaves and
  the lines it passed to \<open>console.warn\<close>.
\<close>

definition readOpcode ::
  "cs2_mappings \<Rightarrow> cs_state \<Rightarrow> codec_error + (instruction \<times> cs_state \<times> jsstring list)" where
  "readOpcode table state =
     (case readUInt16BE (buffer state) (scan state) of
        Inl e \<Rightarrow> Inl e
      | Inr rawOpcode \<Rightarrow>
          (let state1 = state\<lparr>scan := scan state + 2\<rparr> in
           case getMapping table (Num (int rawOpcode)) of
             None \<Rightarrow>
               Inr (mk_instruction rawOpcode (Num 0) Null
                      (str ''unknown_'' @ show_radix 10 rawOpcode) (str ''unknown'') [],
                    state1,
                    [str ''Unknown CS2 opcode: '' @ show_radix 10 rawOpcode @ str '' (0x''
                       @ show_radix 16 rawOpcode @ str '')''])
           | Some mapping \<Rightarrow>
               (let result = (\<lambda>i obj. mk_instruction rawOpcode i obj
                                (name mapping) (returnType mapping) (paramTypes mapping)) in
                case paramTypes mapping of
                  [] \<Rightarrow> Inr (result (Num 0) Null, state1, [])
                | firstParam # _ \<Rightarrow>
                    if firstParam = str ''int'' \<or> firstParam = str ''component''
                    then (case readInt32BE (buffer state1) (scan state1) of
                            Inl e \<Rightarrow> Inl e
                          | Inr i \<Rightarrow>
                              Inr (result (Num i) (ImmNumber (Num i)),
                                   state1\<lparr>scan := scan state1 + 4\<rparr>, []))
                    else if firstParam = str ''string''
                    then (let stringStart = scan state1;
                              sc = scan_string (buffer state1) (endoffset state1) (scan state1)
                          in Inr (result (Num 0)
                                    (ImmString (toString_utf8 (buffer state1) stringStart sc)),
                                  state1\<lparr>scan := sc + 1\<rparr>, []))
                    else Inr (result (Num 0) Null, state1, []))))"

definition writeOpCode :: "cs_state \<Rightarrow> instruction \<Rightarrow> codec_error + cs_state" where
  "writeOpCode state v =
     (case writeUInt16BE (buffer state) (opcode v) (scan state) of
        Inl e \<Rightarrow> Inl e
      | Inr buf1 \<Rightarrow>
          (let state1 = state\<lparr>buffer := buf1, scan := scan state + 2\<rparr> in
           case imm_obj v of
             Null \<Rightarrow> Inr state1
           | ImmNumber n \<Rightarrow>
               (case writeInt32BE (buffer state1) n (scan state1) of
                  Inl e \<Rightarrow> Inl e
                | Inr buf2 \<Rightarrow> Inr (state1\<lparr>buffer := buf2, scan := scan state1 + 4\<rparr>))
           | ImmString s \<Rightarrow>
               (let stringBytes = utf8_encode s;
                    buf2 = copy stringBytes (buffer state1) (scan state1);
                    sc = scan state1 + length stringBytes
                in case writeUInt8 buf2 0 sc of
                     Inl e \<Rightarrow> Inl e
                   | Inr buf3 \<Rightarrow> Inr (state1\<lparr>buffer := buf3, scan := sc + 1\<rparr>))))"


section \<open>Lines of an opcode definition file\<close>

text \<open>
  A significant line is neither blank nor a comment. Its tokens are the parts between runs
  of white space. A line is well-formed when it is significant, has at least three tokens
  and its first token parses as an integer; a significant line that is not well-formed is
  malformed. A well-formed line declares an opcode, a name and a definition.
\<close>

definition significant :: "jsstring \<Rightarrow> bool" where
  "significant line =
     (trim line \<noteq> [] \<and> \<not> startsWith (trim line) (str ''#'') \<and> \<not> startsWith (trim line) (str ''//''))"

definition line_tokens :: "jsstring \<Rightarrow> jsstring list" where
  "line_tokens line = split_ws False [] (trim line)"

definition well_formed :: "jsstring \<Rightarrow> bool" where
  "well_formed line =
     (significant line \<and> 3 \<le> length (line_tokens line) \<and> parseInt (line_tokens line ! 0) \<noteq> NaN)"

definition malformed :: "jsstring \<Rightarrow> bool" where
  "malformed line =
     (significant line \<and> (length (line_tokens line) < 3 \<or> parseInt (line_tokens line ! 0) = NaN))"

definition line_opcode :: "jsstring \<Rightarrow> jsnumber" where
  "line_opcode line = parseInt (line_tokens line ! 0)"

definition line_name :: "jsstring \<Rightarrow> jsstring" where
  "line_name line = line_tokens line ! 1"

definition line_def :: "jsstring \<Rightarrow> cs2_mapping" where
  "line_def line =
     \<lparr>opcode = line_opcode line, name = line_name line, returnType = line_tokens line ! 2,
      paramTypes = drop 3 (line_tokens line)\<rparr>"

section \<open>The instruction layout and the immediate kinds\<close>

text \<open>
  A string that \<open>Buffer.from(s, 'utf8')\<close> encodes without replacement: every surrogate
  code unit is half of a pair.
\<close>

fun well_formed_utf16 :: "jsstring \<Rightarrow> bool" where
  "well_formed_utf16 [] = True"
| "well_formed_utf16 (c # cs) =
     (if is_high_surrogate c
      then (case cs of [] \<Rightarrow> False | d # ds \<Rightarrow> is_low_surrogate d \<and> well_formed_utf16 ds)
      else \<not> is_low_surrogate c \<and> well_formed_utf16 cs)"

text \<open>The value of two bytes read as a big-endian 16-bit unsigned integer.\<close>

definition be16 :: "byte \<Rightarrow> byte \<Rightarrow> nat" where
  "be16 b0 b1 = 2 ^ 8 * unat b0 + unat b1"

text \<open>
  The three kinds of immediate, the kind the first declared parameter type of an opcode
  implies under a table (none for an opcode the table does not have), and the kind of
  the immediate an instruction carries: a number counts as an integer immediate only
  when it is a 32-bit signed integer.
\<close>

datatype imm_kind = NoImmediate | IntImmediate | StringImmediate

definition declared_kind :: "cs2_mappings \<Rightarrow> jsnumber \<Rightarrow> imm_kind" where
  "declared_kind table opc =
     (case getMapping table opc of
        None \<Rightarrow> NoImmediate
      | Some m \<Rightarrow>
          (case paramTypes m of
             [] \<Rightarrow> NoImmediate
           | p # _ \<Rightarrow>
               if p = str ''int'' \<or> p = str ''component'' then IntImmediate
               else if p = str ''string'' then StringImmediate
               else NoImmediate))"

definition imm_kind_of :: "imm_value \<Rightarrow> imm_kind option" where
  "imm_kind_of v =
     (case v of
        Null \<Rightarrow> Some NoImmediate
      | ImmNumber n \<Rightarrow>
          (case n of
             Num i \<Rightarrow> if - 2147483648 \<le> i \<and> i \<le> 2147483647 then Some IntImmediate else None
           | _ \<Rightarrow> None)
      | ImmString s \<Rightarrow> Some StringImmediate)"

text \<open>The numeric projection of the immediate, as \<open>readOpcode\<close> fills \<open>imm\<close>.\<close>

definition imm_projection :: "imm_value \<Rightarrow> jsnumber" where
  "imm_projection v = (case v of ImmNumber n \<Rightarrow> n | _ \<Rightarrow> Num 0)"

text \<open>
  The bytes of an instruction: the opcode as two bytes, big-endian, then nothing, or the
  integer as four bytes, big-endian two's complement, or the UTF-8 bytes of the string
  and one zero byte.
\<close>

definition imm_bytes :: "imm_value \<Rightarrow> byte list" where
  "imm_bytes v =
     (case v of
        Null \<Rightarrow> []
      | ImmNumber n \<Rightarrow>
          (case n of
             Num i \<Rightarrow> [of_int (i div 2 ^ 24), of_int (i div 2 ^ 16), of_int (i div 2 ^ 8), of_int i]
           | _ \<Rightarrow> [])
      | ImmString s \<Rightarrow> utf8_encode s @ [0])"

definition instruction_bytes :: "nat \<Rightarrow> imm_value \<Rightarrow> byte list" where
  "instruction_bytes raw v = [of_nat (raw div 2 ^ 8), of_nat raw] @ imm_bytes v"

section \<open>Example inputs\<close>

text \<open>
  A small cache: category 0 has three index slots, the second with size 0; the blob holds
  eight bytes.
\<close>

definition example_index :: "byte list" where
  "example_index = [0, 0, 2, 0, 0, 3,  0, 0, 0, 0, 0, 0,  0, 0, 1, 0, 0, 7,  9, 9]"

definition example_blob :: "byte list" where
  "example_blob = [10, 11, 12, 13, 14, 15, 16, 17]"

definition example_store :: legacy_store where
  "example_store =
     \<lparr>cachedir = str ''cache'', datFile = str ''cache/main_file_cache.dat2'',
      indexFiles = [0 \<mapsto> str ''cache/main_file_cache.idx0'']\<rparr>"

definition example_fs :: filesystem where
  "example_fs =
     [str ''cache/main_file_cache.idx0'' \<mapsto> example_index,
      str ''cache/main_file_cache.dat2'' \<mapsto> example_blob]"

text \<open>An opcode table with one opcode of each immediate kind, and states to decode from.\<close>

definition example_table :: cs2_mappings where
  "example_table =
     \<lparr>mappings =
        [(Num 1, \<lparr>opcode = Num 1, name = str ''push_int'', returnType = str ''void'',
                  paramTypes = [str ''int'']\<rparr>),
         (Num 2, \<lparr>opcode = Num 2, name = str ''push_string'', returnType = str ''void'',
                  paramTypes = [str ''string'']\<rparr>),
         (Num 3, \<lparr>opcode = Num 3, name = str ''pop'', returnType = str ''void'',
                  paramTypes = []\<rparr>)],
      nameToOpcode = [(str ''push_int'', Num 1), (str ''push_string'', Num 2), (str ''pop'', Num 3)]\<rparr>"

definition example_instruction :: "nat \<Rightarrow> jsstring \<Rightarrow> imm_value \<Rightarrow> instruction" where
  "example_instruction raw nm v =
     \<lparr>opcode = Num (int raw), name = nm, returnType = str ''void'',
      paramTypes = (case v of Null \<Rightarrow> [] | ImmNumber _ \<Rightarrow> [str ''int''] | ImmString _ \<Rightarrow> [str ''string'']),
      imm = imm_projection v, imm_obj = v\<rparr>"

definition fresh_state :: "nat \<Rightarrow> cs_state" where
  "fresh_state n = \<lparr>buffer = replicate n 0xFF, scan = 0, endoffset = n\<rparr>"

text \<open>An opcode definition file with a comment, a blank line and two malformed lines.\<close>

definition example_content :: jsstring where
  "example_content =
     str ''# opcodes'' @ [10] @ str ''1 push_int void int'' @ [10] @ str ''oops'' @ [10]
       @ [10] @ str ''  2   push_string void string  '' @ [13, 10] @ str ''x y z'' @ [10]
       @ str ''0x10 pop void''"

section \<open>Properties of the legacy record store\<close>

lemma readUIntBE3_size:
  "6 * i + 6 \<le> length buf \<Longrightarrow> readUIntBE3 buf (i * 6) = Inr (slot_size buf i)"
  by (simp add: readUIntBE3_def slot_size_def be24_def mult.commute)

lemma readUIntBE3_offset:
  "6 * i + 6 \<le> length buf \<Longrightarrow> readUIntBE3 buf (i * 6 + 3) = Inr (slot_offset buf i)"
  by (simp add: readUIntBE3_def slot_offset_def be24_def mult.commute add.commute)

lemma example_paths_distinct:
  "str ''cache/main_file_cache.idx0'' \<noteq> str ''cache/main_file_cache.dat2''"
  by (simp add: str_def)

lemma example_lookup:
  "indexFiles example_store 0 = Some (str ''cache/main_file_cache.idx0'')"
  "example_fs (str ''cache/main_file_cache.idx0'') = Some example_index"
  "example_fs (datFile example_store) = Some example_blob"
  using example_paths_distinct by (simp_all add: example_store_def example_fs_def)

lemma example_slots:
  "length example_index = 20"
  "slot_size example_index 0 = 2" "slot_offset example_index 0 = 3"
  "slot_size example_index 1 = 0" "slot_size example_index (Suc 0) = 0"
  "slot_size example_index 2 = 1" "slot_offset example_index 2 = 7"
  by (simp_all add: example_index_def slot_size_def slot_offset_def be24_def)

text \<open>
  C2. When the index entry of \<open>(major, minor)\<close> lies inside the index file, stores a size
  \<open>S > 0\<close> and an offset \<open>O\<close>, and the blob has at least \<open>S\<close> bytes from \<open>O\<close>, \<open>getFile\<close>
  returns exactly \<open>S\<close> bytes, the bytes of the blob in the range \<open>[O, O + S)\<close>.
\<close>

theorem getFile_returns_blob_range:
  assumes "indexFiles st major = Some p" and "fs p = Some index"
    and "fs (datFile st) = Some blob"
    and "6 * minor + 6 \<le> length index"
    and "0 < slot_size index minor"
    and "slot_offset index minor + slot_size index minor \<le> length blob"
  shows "\<exists>bytes. getFile fs st major minor = Inr bytes
           \<and> length bytes = slot_size index minor
           \<and> bytes = take (slot_size index minor) (drop (slot_offset index minor) blob)
           \<and> (\<forall>k < slot_size index minor. bytes ! k = blob ! (slot_offset index minor + k))"
proof -
  let ?S = "slot_size index minor" and ?O = "slot_offset index minor"
  have "getFile fs st major minor = Inr (take ?S (drop ?O blob))"
    using assms
    by (simp add: getFile_def readFile_def readUIntBE3_size readUIntBE3_offset read_at_def)
  moreover have "length (take ?S (drop ?O blob)) = ?S"
    using assms(6) by simp
  moreover have "\<forall>k < ?S. take ?S (drop ?O blob) ! k = blob ! (?O + k)"
    using assms(6) by simp
  ultimately show ?thesis by blast
qed

theorem getFile_returns_blob_range_witness:
  "getFile example_fs example_store 0 0 = Inr [13, 14]"
  using getFile_returns_blob_range [of example_store 0 _ example_fs example_index example_blob 0]
  by (simp add: example_lookup example_slots) (simp add: example_blob_def)

text \<open>
  C4. On a registered category whose index file can be read, \<open>getFile\<close> fails, returning
  no bytes, with the error "not found in index" when the six bytes of the entry would
  reach past the end of the index file, and with the error "has zero size" when the
  entry is inside the file and its stored size is 0.
\<close>

theorem getFile_record_not_found:
  assumes "indexFiles st major = Some p" and "fs p = Some index"
  shows "(6 * minor + 6 > length index \<longrightarrow>
            getFile fs st major minor
              = Inl (FailedToReadFile major minor (FileNotFoundInIndex major minor)))
       \<and> (6 * minor + 6 \<le> length index \<and> slot_size index minor = 0 \<longrightarrow>
            getFile fs st major minor
              = Inl (FailedToReadFile major minor (FileHasZeroSize major minor)))"
  using assms
  by (auto simp add: getFile_def readFile_def readUIntBE3_size readUIntBE3_offset mult.commute)

theorem getFile_record_not_found_witness:
  "getFile example_fs example_store 0 3 = Inl (FailedToReadFile 0 3 (FileNotFoundInIndex 0 3))
   \<and> getFile example_fs example_store 0 1 = Inl (FailedToReadFile 0 1 (FileHasZeroSize 0 1))"
  using getFile_record_not_found [of example_store 0 _ example_fs example_index 3]
    getFile_record_not_found [of example_store 0 _ example_fs example_index 1]
  by (simp add: example_lookup example_slots)

lemma js_get_set:
  "length xs \<le> k \<Longrightarrow> js_get (js_set xs k v) i = (if i = k then Some v else js_get xs i)"
  by (auto simp: js_get_def js_set_def nth_append)

lemma length_js_set: "length xs \<le> k \<Longrightarrow> length (js_set xs k v) = Suc k"
  by (auto simp: js_set_def)

lemma index_loop_get:
  assumes "6 * n \<le> length buf" and "length xs \<le> k"
  shows "\<exists>ys. index_loop buf major n k xs = Inr ys \<and>
     (\<forall>i. js_get ys i =
        (if k \<le> i \<and> i < n \<and> 0 < slot_size buf i
         then Some (mk_index major i (slot_size buf i)) else js_get xs i))"
  using assms
proof (induction buf major n k xs rule: index_loop.induct)
  case (1 buf major n k xs)
  show ?case
  proof (cases "k < n")
    case False
    then show ?thesis by (auto simp add: index_loop.simps)
  next
    case True
    then have rd: "readUIntBE3 buf (k * 6) = Inr (slot_size buf k)"
      using "1.prems" by (intro readUIntBE3_size) simp
    let ?xs' = "if slot_size buf k > 0
                then js_set xs k (mk_index major k (slot_size buf k)) else xs"
    have len: "length ?xs' \<le> Suc k"
      using "1.prems" by (simp add: length_js_set)
    from "1.IH" [OF True rd "1.prems"(1) len]
    obtain ys where ys: "index_loop buf major n (Suc k) ?xs' = Inr ys"
      and get: "\<And>i. js_get ys i =
        (if Suc k \<le> i \<and> i < n \<and> 0 < slot_size buf i
         then Some (mk_index major i (slot_size buf i)) else js_get ?xs' i)"
      by blast
    have "index_loop buf major n k xs = Inr ys"
      using True rd ys by (subst index_loop.simps) simp
    moreover have "js_get ys i =
        (if k \<le> i \<and> i < n \<and> 0 < slot_size buf i
         then Some (mk_index major i (slot_size buf i)) else js_get xs i)" for i
      using get [of i] "1.prems"(2) True by (auto simp: js_get_set)
    ultimately show ?thesis by blast
  qed
qed

text \<open>
  C3. For an index file of length \<open>L\<close>, \<open>getCacheIndex\<close> succeeds and its result has an
  entry at \<open>minor\<close> exactly when \<open>minor < L div 6\<close> and the big-endian 24-bit size at the
  start of the six-byte slot \<open>minor\<close> is positive; the entry carries that size, and every
  other position (a slot of size 0, or one past the last slot) is a hole.
\<close>

theorem getCacheIndex_entries:
  assumes "indexFiles st major = Some p" and "fs p = Some index"
  shows "\<exists>indices. getCacheIndex fs st major = Inr indices \<and>
     (\<forall>minor. js_get indices minor =
        (if minor < length index div 6 \<and> 0 < slot_size index minor
         then Some \<lparr>ci_major = major, ci_minor = minor, ci_crc = 0, ci_version = 0,
                    ci_size = slot_size index minor, ci_name = None, ci_subindexcount = 1,
                    ci_subindices = [0], ci_subnames = None, ci_uncompressed_crc = 0,
                    ci_uncompressed_size = slot_size index minor\<rparr>
         else None))"
proof -
  have "6 * (length index div 6) \<le> length index" by simp
  from index_loop_get [OF this, of "[]" 0 major]
  obtain ys where "index_loop index major (length index div 6) 0 [] = Inr ys"
    and "\<And>i. js_get ys i =
        (if i < length index div 6 \<and> 0 < slot_size index i
         then Some (mk_index major i (slot_size index i)) else None)"
    by (auto simp: js_get_def)
  then show ?thesis
    using assms by (simp add: getCacheIndex_def readFile_def mk_index_def)
qed

theorem getCacheIndex_entries_witness:
  "\<exists>indices. getCacheIndex example_fs example_store 0 = Inr indices
     \<and> js_get indices 0 = Some (mk_index 0 0 2)
     \<and> js_get indices 1 = None
     \<and> js_get indices 2 = Some (mk_index 0 2 1)
     \<and> js_get indices 3 = None"
  using getCacheIndex_entries [of example_store 0 _ example_fs example_index]
  by (auto simp add: example_lookup example_slots mk_index_def)


section \<open>Properties of the format detector\<close>

lemmas detector_defs =
  selectFsCache_def select_by_counts_def count_file_def zero_counts_def str_def
  idx_match_def is_word_char_def is_digit_def maxcount_def

text \<open>
  C5, as stated, fails: in a directory with one \<open>.dat\<close> file and one \<open>.jag\<close> file the
  old-binary count and the classic count are tied at the maximum 1, and the detector
  selects the classic store.
\<close>

theorem selectFsCache_tie_counterexample:
  "datcount (count_files [str ''a.dat'', str ''b.jag''] zero_counts) = 1
   \<and> jagcount (count_files [str ''a.dat'', str ''b.jag''] zero_counts) = 1
   \<and> maxcount (count_files [str ''a.dat'', str ''b.jag''] zero_counts) = 1
   \<and> selectFsCache (CLIScriptFS (str ''dir'')) None [str ''a.dat'', str ''b.jag'']
       = Inr ClassicFileSource"
  by (simp add: detector_defs)

text \<open>
  C5, amended. With a positive maximum, ties are resolved by the order of the checks.
  First the modern cache, when the \<open>jcache\<close> count is at the maximum: a command-line file
  system gets the \<open>GameCacheLoader\<close>, a web file system with a root handle the
  \<open>WasmGameCacheLoader\<close>, a web file system without one the error "need fs with hard disk
  backing"; on any other \<open>ScriptFS\<close> the modern check selects nothing and the later checks
  decide. Then the legacy index store, when the \<open>idx\<close> count is at the maximum and at least
  one \<open>.dat2\<close> file is present: a command-line file system gets the \<open>LegacyFileSource\<close>,
  every other one the error "Legacy cache format requires filesystem access". Then the
  classic store, when the \<open>jag\<close> count is at the maximum. The \<open>.dat\<close> and \<open>.dat2\<close> counts
  select no store of their own: a tie between the old-binary count and the classic count
  selects the classic store, and when none of the three stores applies the detector fails
  with "couldn't detect cache type".
\<close>

theorem selectFsCache_precedence:
  assumes "0 < maxcount (count_files files zero_counts)"
  shows "(jcachecount (count_files files zero_counts) = maxcount (count_files files zero_counts) \<longrightarrow>
            selectFsCache (CLIScriptFS dir) w files
              = Inr (GameCacheLoader dir (case w of None \<Rightarrow> False | Some b \<Rightarrow> b))
          \<and> selectFsCache (WebFsScriptFS (Some h)) w files = Inr (WasmGameCacheLoader h)
          \<and> selectFsCache (WebFsScriptFS None) w files = Inl NeedFsWithHardDiskBacking)
       \<and> ((jcachecount (count_files files zero_counts) < maxcount (count_files files zero_counts)
              \<or> fs = OtherScriptFS)
            \<and> idxcount (count_files files zero_counts) = maxcount (count_files files zero_counts)
            \<and> 0 < dat2count (count_files files zero_counts) \<longrightarrow>
            selectFsCache fs w files
              = (case fs of
                   CLIScriptFS d \<Rightarrow> Inr (LegacyFileSource d (str ''rs2_727.ini''))
                 | _ \<Rightarrow> Inl LegacyRequiresFilesystemAccess))
       \<and> ((jcachecount (count_files files zero_counts) < maxcount (count_files files zero_counts)
              \<or> fs = OtherScriptFS)
            \<and> (idxcount (count_files files zero_counts) < maxcount (count_files files zero_counts)
                 \<or> dat2count (count_files files zero_counts) = 0)
            \<and> jagcount (count_files files zero_counts) = maxcount (count_files files zero_counts) \<longrightarrow>
            selectFsCache fs w files = Inr ClassicFileSource)
       \<and> ((jcachecount (count_files files zero_counts) < maxcount (count_files files zero_counts)
              \<or> fs = OtherScriptFS)
            \<and> (idxcount (count_files files zero_counts) < maxcount (count_files files zero_counts)
                 \<or> dat2count (count_files files zero_counts) = 0)
            \<and> jagcount (count_files files zero_counts) < maxcount (count_files files zero_counts) \<longrightarrow>
            selectFsCache fs w files = Inl CouldntDetectCacheType)"
  using assms unfolding selectFsCache_def select_by_counts_def Let_def
  by (auto split: scriptfs.splits option.splits)

theorem selectFsCache_precedence_witness:
  "selectFsCache (CLIScriptFS (str ''dir'')) (Some True) [str ''a.jcache'', str ''b.jag'']
     = Inr (GameCacheLoader (str ''dir'') True)
   \<and> selectFsCache (WebFsScriptFS None) (Some True) [str ''a.jcache'', str ''b.jag'']
     = Inl NeedFsWithHardDiskBacking
   \<and> selectFsCache OtherScriptFS (Some True) [str ''a.jcache'', str ''b.jag'']
     = Inr ClassicFileSource
   \<and> selectFsCache (CLIScriptFS (str ''dir'')) None
        [str ''main_file_cache.idx0'', str ''main_file_cache.dat2'', str ''b.jag'']
     = Inr (LegacyFileSource (str ''dir'') (str ''rs2_727.ini''))
   \<and> selectFsCache (WebFsScriptFS (Some 7)) None
        [str ''main_file_cache.idx0'', str ''main_file_cache.dat2'', str ''b.jag'']
     = Inl LegacyRequiresFilesystemAccess
   \<and> selectFsCache (WebFsScriptFS (Some 7)) None
        [str ''a.dat'', str ''b.dat'', str ''c.jag'', str ''d.jag'']
     = Inr ClassicFileSource
   \<and> selectFsCache (CLIScriptFS (str ''dir'')) None [str ''a.dat'', str ''b.dat'', str ''c.jag'']
     = Inl CouldntDetectCacheType"
proof -
  have 1: "count_files [str ''a.jcache'', str ''b.jag''] zero_counts
      = \<lparr>jcachecount = 1, datcount = 0, dat2count = 0, jagcount = 1, idxcount = 0\<rparr>"
    by (simp add: detector_defs)
  have 2: "count_files [str ''main_file_cache.idx0'', str ''main_file_cache.dat2'', str ''b.jag'']
        zero_counts
      = \<lparr>jcachecount = 0, datcount = 0, dat2count = 1, jagcount = 1, idxcount = 1\<rparr>"
    by (simp add: detector_defs)
  have 3: "count_files [str ''a.dat'', str ''b.dat'', str ''c.jag'', str ''d.jag''] zero_counts
      = \<lparr>jcachecount = 0, datcount = 2, dat2count = 0, jagcount = 2, idxcount = 0\<rparr>"
    by (simp add: detector_defs)
  have 4: "count_files [str ''a.dat'', str ''b.dat'', str ''c.jag''] zero_counts
      = \<lparr>jcachecount = 0, datcount = 2, dat2count = 0, jagcount = 1, idxcount = 0\<rparr>"
    by (simp add: detector_defs)
  show ?thesis
    using
      selectFsCache_precedence [where files = "[str ''a.jcache'', str ''b.jag'']"
        and dir = "str ''dir''" and w = "Some True" and fs = OtherScriptFS]
      selectFsCache_precedence [where files = "[str ''main_file_cache.idx0'',
        str ''main_file_cache.dat2'', str ''b.jag'']" and w = None
        and fs = "CLIScriptFS (str ''dir'')"]
      selectFsCache_precedence [where files = "[str ''main_file_cache.idx0'',
        str ''main_file_cache.dat2'', str ''b.jag'']" and w = None
        and fs = "WebFsScriptFS (Some 7)"]
      selectFsCache_precedence [where files = "[str ''a.dat'', str ''b.dat'', str ''c.jag'',
        str ''d.jag'']" and w = None and fs = "WebFsScriptFS (Some 7)"]
      selectFsCache_precedence [where files = "[str ''a.dat'', str ''b.dat'', str ''c.jag'']"
        and w = None and fs = "CLIScriptFS (str ''dir'')"]
    unfolding 1 2 3 4 by (simp add: maxcount_def)
qed

section \<open>UTF-8: decoding what was encoded\<close>

lemma mod_shift: "(a * m + x) mod m = x mod (m::nat)"
  by simp

lemma lead2_mod: "q < 32 \<Longrightarrow> (192 + q) mod 32 = (q::nat)"
  using mod_shift[of 6 32 q] by simp

lemma cont_mod: "r < 64 \<Longrightarrow> (128 + r) mod 64 = (r::nat)"
  using mod_shift[of 2 64 r] by simp

lemma lead3_mod: "q < 16 \<Longrightarrow> (224 + q) mod 16 = (q::nat)"
  using mod_shift[of 14 16 q] by simp

lemma lead4_mod: "q < 8 \<Longrightarrow> (240 + q) mod 8 = (q::nat)"
  using mod_shift[of 30 8 q] by simp

lemma div_4096: "(n::nat) div 4096 * 64 + n div 64 mod 64 = n div 64"
proof -
  have "n div 4096 = n div 64 div 64" using div_mult2_eq[of n 64 64] by simp
  then show ?thesis by (simp only: div_mult_mod_eq)
qed

lemma div_262144: "(n::nat) div 262144 * 64 + n div 4096 mod 64 = n div 4096"
proof -
  have "n div 262144 = n div 4096 div 64" using div_mult2_eq[of n 4096 64] by simp
  then show ?thesis by (simp only: div_mult_mod_eq)
qed

lemma unat_byte: "n < 256 \<Longrightarrow> unat (of_nat n :: byte) = n"
  by (simp add: unat_of_nat)

lemma surrogate_unat:
  "is_high_surrogate c = (0xD800 \<le> unat c \<and> unat c \<le> 0xDBFF)"
  "is_low_surrogate c = (0xDC00 \<le> unat c \<and> unat c \<le> 0xDFFF)"
  by (simp_all add: is_high_surrogate_def is_low_surrogate_def word_le_nat_alt)


lemma cont_last:
  assumes "unat b = 128 + r" "r < 64" "lo \<le> 128 + r" "128 + r \<le> hi"
  shows "utf8_cont (Suc 0) cp lo hi (b # rest) = utf16_units (cp * 64 + r) @ utf8_decode rest"
  using assms by (simp add: cont_mod Let_def)

lemma cont_more:
  assumes "unat b = 128 + r" "r < 64" "lo \<le> 128 + r" "128 + r \<le> hi" "1 < k"
  shows "utf8_cont k cp lo hi (b # rest) = utf8_cont (k - 1) (cp * 64 + r) 128 191 rest"
  using assms by (simp add: cont_mod Let_def)

lemma dec1: "n < 0x80 \<Longrightarrow> utf8_decode (utf8_bytes n @ rest) = utf16_units n @ utf8_decode rest"
  by (simp add: utf8_bytes_def unat_byte utf16_units_def)

lemma dec2: 
  assumes "0x80 \<le> n" "n < 0x800"
  shows "utf8_decode (utf8_bytes n @ rest) = utf16_units n @ utf8_decode rest"
proof -
  let ?q = "n div 64" and ?r = "n mod 64"
  define b1 :: byte where "b1 = of_nat (192 + ?q)"
  define b2 :: byte where "b2 = of_nat (128 + ?r)"
  have q: "?q < 32" "2 \<le> ?q" using assms by simp_all
  have r: "?r < 64" by simp
  have u1: "unat b1 = 192 + ?q" unfolding b1_def using q by (intro unat_byte) simp
  have u2: "unat b2 = 128 + ?r" unfolding b2_def using r by (intro unat_byte) simp
  have "utf8_decode (b1 # b2 # rest) = utf8_cont 1 ?q 128 191 (b2 # rest)"
    using q by (simp add: u1 lead2_mod Let_def del: utf8_cont.simps)
  also have "\<dots> = utf16_units (?q * 64 + ?r) @ utf8_decode rest"
    using cont_last[OF u2 r, of 128 191] by simp
  finally show ?thesis using assms by (simp add: utf8_bytes_def b1_def b2_def)
qed

lemma dec3: 
  assumes "0x800 \<le> n" "n < 0x10000" "\<not> (0xD800 \<le> n \<and> n \<le> 0xDFFF)"
  shows "utf8_decode (utf8_bytes n @ rest) = utf16_units n @ utf8_decode rest"
proof -
  let ?q = "n div 4096" and ?m = "n div 64 mod 64" and ?r = "n mod 64"
  define b1 :: byte where "b1 = of_nat (224 + ?q)"
  define b2 :: byte where "b2 = of_nat (128 + ?m)"
  define b3 :: byte where "b3 = of_nat (128 + ?r)"
  have q: "?q < 16" using assms by simp
  have m: "?m < 64" and r: "?r < 64" by simp_all
  have u1: "unat b1 = 224 + ?q" unfolding b1_def using q by (intro unat_byte) simp
  have u2: "unat b2 = 128 + ?m" unfolding b2_def using m by (intro unat_byte) simp
  have u3: "unat b3 = 128 + ?r" unfolding b3_def using r by (intro unat_byte) simp
  have lo: "?q = 0 \<Longrightarrow> 32 \<le> ?m"
  proof -
    assume "?q = 0" 
    then have "n div 64 = ?m" using div_4096[of n] by simp
    moreover have "32 \<le> n div 64" using assms by simp
    ultimately show ?thesis by simp
  qed
  have hi: "?q = 13 \<Longrightarrow> ?m < 32"
  proof -
    assume "?q = 13" 
    then have "n div 64 = 832 + ?m" using div_4096[of n] by simp
    moreover have "n div 64 < 864 \<or> 896 \<le> n div 64" using assms by auto
    moreover have "?m < 64" by simp
    ultimately show ?thesis by linarith
  qed
  have bounds: "(if 224 + ?q = 224 then 160 else 128) \<le> 128 + ?m"
      "128 + ?m \<le> (if 224 + ?q = 237 then 159 else 191)"
    using lo hi m by auto
  have "utf8_decode (b1 # b2 # b3 # rest)
      = utf8_cont 2 ?q (if 224 + ?q = 224 then 160 else 128) (if 224 + ?q = 237 then 159 else 191)
           (b2 # b3 # rest)"
    using q by (simp add: u1 lead3_mod Let_def del: utf8_cont.simps)
  also have "\<dots> = utf8_cont 1 (?q * 64 + ?m) 128 191 (b3 # rest)"
    using cont_more[OF u2 m bounds, of 2] by simp
  also have "\<dots> = utf16_units ((?q * 64 + ?m) * 64 + ?r) @ utf8_decode rest"
    using cont_last[OF u3 r, of 128 191] by simp
  also have "(?q * 64 + ?m) * 64 + ?r = n"
    by (simp only: div_4096 div_mult_mod_eq)
  finally show ?thesis using assms by (simp add: utf8_bytes_def b1_def b2_def b3_def)
qed

lemma dec4: 
  assumes "0x10000 \<le> n" "n < 0x110000"
  shows "utf8_decode (utf8_bytes n @ rest) = utf16_units n @ utf8_decode rest"
proof -
  let ?q = "n div 262144" and ?l = "n div 4096 mod 64" and ?m = "n div 64 mod 64" and ?r = "n mod 64"
  define b1 :: byte where "b1 = of_nat (240 + ?q)"
  define b2 :: byte where "b2 = of_nat (128 + ?l)"
  define b3 :: byte where "b3 = of_nat (128 + ?m)"
  define b4 :: byte where "b4 = of_nat (128 + ?r)"
  have q: "?q < 8" "?q \<le> 4" using assms by simp_all
  have l: "?l < 64" and m: "?m < 64" and r: "?r < 64" by simp_all
  have u1: "unat b1 = 240 + ?q" unfolding b1_def using q by (intro unat_byte) simp
  have u2: "unat b2 = 128 + ?l" unfolding b2_def using l by (intro unat_byte) simp
  have u3: "unat b3 = 128 + ?m" unfolding b3_def using m by (intro unat_byte) simp
  have u4: "unat b4 = 128 + ?r" unfolding b4_def using r by (intro unat_byte) simp
  have lo: "?q = 0 \<Longrightarrow> 16 \<le> ?l"
  proof -
    assume "?q = 0" 
    then have "n div 4096 = ?l" using div_262144[of n] by simp
    moreover have "16 \<le> n div 4096" using assms by simp
    ultimately show ?thesis by simp
  qed
  have hi: "?q = 4 \<Longrightarrow> ?l < 16"
  proof -
    assume "?q = 4" 
    then have "n div 4096 = 256 + ?l" using div_262144[of n] by simp
    moreover have "n div 4096 < 272" using assms by simp
    ultimately show ?thesis by linarith
  qed
  have bounds: "(if 240 + ?q = 240 then 144 else 128) \<le> 128 + ?l"
      "128 + ?l \<le> (if 240 + ?q = 244 then 143 else 191)"
    using lo hi l by auto
  have "utf8_decode (b1 # b2 # b3 # b4 # rest)
      = utf8_cont 3 ?q (if 240 + ?q = 240 then 144 else 128) (if 240 + ?q = 244 then 143 else 191)
           (b2 # b3 # b4 # rest)"
    using q by (simp add: u1 lead4_mod Let_def del: utf8_cont.simps)
  also have "\<dots> = utf8_cont 2 (?q * 64 + ?l) 128 191 (b3 # b4 # rest)"
    using cont_more[OF u2 l bounds, of 3] by simp
  also have "\<dots> = utf8_cont 1 ((?q * 64 + ?l) * 64 + ?m) 128 191 (b4 # rest)"
    using cont_more[OF u3 m, of 128 191 2] by simp
  also have "\<dots> = utf16_units (((?q * 64 + ?l) * 64 + ?m) * 64 + ?r) @ utf8_decode rest"
    using cont_last[OF u4 r, of 128 191] by simp
  also have "((?q * 64 + ?l) * 64 + ?m) * 64 + ?r = n"
    by (simp only: div_262144 div_4096 div_mult_mod_eq)
  finally show ?thesis using assms by (simp add: utf8_bytes_def b1_def b2_def b3_def b4_def)
qed

lemma unat_jschar_less: "unat (c :: jschar) < 65536"
  using unsigned_less[of c, where 'a = nat] by simp

lemma units_single: "utf16_units (unat (c::jschar)) = [c]"
  using unat_jschar_less[of c] by (simp add: utf16_units_def)

lemma units_pair:
  assumes "is_high_surrogate c" "is_low_surrogate d"
  shows "utf16_units (0x10000 + (unat c - 0xD800) * 0x400 + (unat d - 0xDC00)) = [c, d]"
proof -
  let ?h = "unat c - 0xD800" and ?l = "unat d - 0xDC00"
  have h: "unat c = 0xD800 + ?h" and l: "unat d = 0xDC00 + ?l" and l': "?l < 1024"
    using assms by (auto simp add: surrogate_unat)
  have "(?h * 1024 + ?l) div 1024 = ?h" "(?h * 1024 + ?l) mod 1024 = ?l"
    using l' by simp_all
  then have "utf16_units (0x10000 + ?h * 0x400 + ?l) = [of_nat (0xD800 + ?h), of_nat (0xDC00 + ?l)]"
    by (simp add: utf16_units_def)
  also have "\<dots> = [c, d]"
    unfolding h[symmetric] l[symmetric] by simp
  finally show ?thesis .
qed

lemma pair_range:
  assumes "is_high_surrogate c" "is_low_surrogate d"
  shows "0x10000 \<le> 0x10000 + (unat c - 0xD800) * 0x400 + (unat d - 0xDC00)"
    "0x10000 + (unat c - 0xD800) * 0x400 + (unat d - 0xDC00) < 0x110000"
proof -
  have "unat c - 0xD800 \<le> 1023" "unat d - 0xDC00 \<le> 1023"
    using assms by (auto simp add: surrogate_unat)
  then show "0x10000 + (unat c - 0xD800) * 0x400 + (unat d - 0xDC00) < 0x110000"
    by linarith
qed simp

lemma dec_unit:
  assumes "\<not> is_high_surrogate c" "\<not> is_low_surrogate c"
  shows "utf8_decode (utf8_bytes (unat c) @ rest) = c # utf8_decode rest"
proof -
  have "utf8_decode (utf8_bytes (unat c) @ rest) = utf16_units (unat c) @ utf8_decode rest"
  proof -
    consider "unat c < 0x80" | "0x80 \<le> unat c" "unat c < 0x800" | "0x800 \<le> unat c"
      by linarith
    then show ?thesis
    proof cases
      case 1 then show ?thesis by (rule dec1)
    next
      case 2 then show ?thesis by (rule dec2)
    next
      case 3
      moreover have "unat c < 0x10000" using unat_jschar_less[of c] by simp
      moreover have "\<not> (0xD800 \<le> unat c \<and> unat c \<le> 0xDFFF)"
        using assms by (auto simp add: surrogate_unat)
      ultimately show ?thesis by (rule dec3)
    qed
  qed
  then show ?thesis by (simp add: units_single)
qed

lemma dec_pair:
  assumes "is_high_surrogate c" "is_low_surrogate d"
  shows "utf8_decode (utf8_bytes (0x10000 + (unat c - 0xD800) * 0x400 + (unat d - 0xDC00)) @ rest)
     = c # d # utf8_decode rest"
  using dec4[OF pair_range[OF assms], of rest] units_pair[OF assms] by simp

lemma utf8_roundtrip:
  "well_formed_utf16 s \<Longrightarrow> utf8_decode (utf8_encode s) = s"
proof (induction s rule: utf8_encode.induct)
  case 1
  then show ?case by simp
next
  case (2 c cs)
  show ?case
  proof (cases "is_high_surrogate c")
    case True
    with "2.prems" obtain d ds where cs: "cs = d # ds" and d: "is_low_surrogate d" and wf: "well_formed_utf16 ds"
      by (auto split: list.splits)
    have "utf8_decode (utf8_encode ds) = ds"
      using "2.IH"(1)[OF True cs d wf] .
    then show ?thesis using True cs d by (simp add: dec_pair del: utf8_decode.simps)
  next
    case False
    with "2.prems" have low: "\<not> is_low_surrogate c" and wf: "well_formed_utf16 cs" by simp_all
    have "utf8_decode (utf8_encode cs) = cs"
      using "2.IH"(4)[OF False low wf] .
    then show ?thesis using False low by (simp add: dec_unit del: utf8_decode.simps)
  qed
qed

lemma byte_nonzero: "0 < n \<Longrightarrow> n < 256 \<Longrightarrow> (of_nat n :: byte) \<noteq> 0"
  using unat_byte[of n] by auto

lemma utf8_bytes_nonzero:
  assumes "0 < cp" "cp < 0x110000"
  shows "0 \<notin> set (utf8_bytes cp)"
proof -
  have a: "cp < 0x800 \<Longrightarrow> 192 + cp div 64 < 256" by simp
  have b: "cp < 0x10000 \<Longrightarrow> 224 + cp div 4096 < 256" by simp
  have c: "240 + cp div 262144 < 256" using assms by simp
  have d: "128 + x mod 64 < 256" for x :: nat
    using mod_less_divisor[of 64 x] by linarith
  show ?thesis
    unfolding utf8_bytes_def using assms a b c
    by (auto simp del: of_nat_add dest!: sym[of 0] simp: byte_nonzero d)
qed

lemma utf8_encode_nonzero:
  "0 \<notin> set s \<Longrightarrow> 0 \<notin> set (utf8_encode s)"
proof (induction s rule: utf8_encode.induct)
  case 1
  then show ?case by simp
next
  case (2 c cs)
  have c0: "0 < unat c" using "2.prems" by (simp add: unat_gt_0) 
  have cl: "unat c < 0x110000" using unat_jschar_less[of c] by simp
  have fffd: "0 \<notin> set (utf8_bytes 0xFFFD)" by (rule utf8_bytes_nonzero) simp_all
  show ?case
  proof (cases "is_high_surrogate c")
    case True
    show ?thesis
    proof (cases cs)
      case Nil
      then show ?thesis using True fffd by simp
    next
      case (Cons d ds)
      show ?thesis
      proof (cases "is_low_surrogate d")
        case low: True
        have "0 \<notin> set (utf8_encode ds)" using "2.IH"(1)[OF True Cons low] "2.prems" Cons by simp
        moreover have "0 \<notin> set (utf8_bytes (0x10000 + (unat c - 0xD800) * 0x400 + (unat d - 0xDC00)))"
          using pair_range[OF True low] by (intro utf8_bytes_nonzero) simp_all
        ultimately show ?thesis using True Cons low by simp
      next
        case nlow: False
        have "0 \<notin> set (utf8_encode cs)" using "2.IH"(2)[OF True Cons nlow] "2.prems" by simp
        then show ?thesis using True Cons nlow fffd by simp
      qed
    qed
  next
    case False
    show ?thesis
    proof (cases "is_low_surrogate c")
      case True
      have "0 \<notin> set (utf8_encode cs)" using "2.IH"(3)[OF False True] "2.prems" by simp
      then show ?thesis using False True fffd by simp
    next
      case nlow: False
      have "0 \<notin> set (utf8_encode cs)" using "2.IH"(4)[OF False nlow] "2.prems" by simp
      moreover have "0 \<notin> set (utf8_bytes (unat c))" using c0 cl by (rule utf8_bytes_nonzero)
      ultimately show ?thesis using False nlow by simp
    qed
  qed
qed

section \<open>Properties of the instruction codec\<close>

lemma length_write_bytes:
  "off + length bs \<le> length buf \<Longrightarrow> length (write_bytes buf off bs) = length buf"
  by (simp add: write_bytes_def)

lemma nth_write_bytes:
  "off + length bs \<le> length buf \<Longrightarrow> i < length bs \<Longrightarrow> write_bytes buf off bs ! (off + i) = bs ! i"
  by (simp add: write_bytes_def nth_append)

lemma write_bytes_append:
  assumes "off + length a + length b \<le> length buf"
  shows "write_bytes (write_bytes buf off a) (off + length a) b = write_bytes buf off (a @ b)"
  using assms by (simp add: write_bytes_def ac_simps)


lemma scan_string_stop:
  assumes "sc \<le> z" and "z \<le> endoff"
    and "z < endoff \<longrightarrow> byte_at buf z = Some 0"
    and "\<forall>i. sc \<le> i \<and> i < z \<longrightarrow> byte_at buf i \<noteq> Some 0"
  shows "scan_string buf endoff sc = z"
  using assms
proof (induction buf endoff sc rule: scan_string.induct)
  case (1 buf endoff sc)
  show ?case
  proof (cases "sc = z")
    case True
    then show ?thesis using "1.prems" by (subst scan_string.simps) auto
  next
    case False
    then have lt: "sc < z" using "1.prems"(1) by simp
    then have step: "sc < endoff \<and> byte_at buf sc \<noteq> Some 0"
      using "1.prems" by auto
    have "scan_string buf endoff (Suc sc) = z"
      using "1.IH"[OF step] lt "1.prems" by auto
    then show ?thesis using step by (subst scan_string.simps) simp
  qed
qed

lemma int_byte: "int (unat (of_int j :: byte)) = j mod 256"
  by (simp add: unat_eq_nat_uint uint_word_of_int)

lemma int32_split:
  "(i::int) mod 4294967296
     = 16777216 * (i div 16777216 mod 256) + (65536 * (i div 65536 mod 256)
        + (256 * (i div 256 mod 256) + i mod 256))"
proof -
  have a: "i mod 4294967296 = 16777216 * (i div 16777216 mod 256) + i mod 16777216"
    using zmod_zmult2_eq[of 256 i 16777216] by simp
  have b: "i mod 16777216 = 65536 * (i div 65536 mod 256) + i mod 65536"
    using zmod_zmult2_eq[of 256 i 65536] by simp
  have c: "i mod 65536 = 256 * (i div 256 mod 256) + i mod 256"
    using zmod_zmult2_eq[of 256 i 256] by simp
  show ?thesis unfolding a b c by simp
qed

lemma int32_mod:
  assumes "- 2147483648 \<le> i" "i \<le> 2147483647"
  shows "(if i mod 4294967296 \<ge> 2147483648 then i mod 4294967296 - 4294967296 else i mod 4294967296) = (i::int)"
proof (cases "0 \<le> i")
  case True
  then have "i mod 4294967296 = i" using assms by simp
  then show ?thesis using assms by simp
next
  case False
  have "(i + 4294967296) mod 4294967296 = i + 4294967296"
    using assms False by (intro mod_pos_pos_trivial) simp_all
  then have "i mod 4294967296 = i + 4294967296" by simp
  then show ?thesis using assms False by simp
qed

lemma read_write_int32:
  assumes "- 2147483648 \<le> i" "i \<le> 2147483647" "off + 4 \<le> length buf"
    and "take 4 (drop off buf) = [of_int (i div 2 ^ 24), of_int (i div 2 ^ 16), of_int (i div 2 ^ 8), of_int i]"
  shows "readInt32BE buf off = Inr i"
proof -
  have n: "buf ! off = of_int (i div 2 ^ 24)" "buf ! (off + 1) = of_int (i div 2 ^ 16)"
    "buf ! (off + 2) = of_int (i div 2 ^ 8)" "buf ! (off + 3) = of_int i"
    using assms(3) arg_cong[OF assms(4), of "\<lambda>xs. xs ! 0"] arg_cong[OF assms(4), of "\<lambda>xs. xs ! 1"]
      arg_cong[OF assms(4), of "\<lambda>xs. xs ! 2"] arg_cong[OF assms(4), of "\<lambda>xs. xs ! 3"]
    by simp_all
  have "int (unat (buf ! off)) * 16777216 + int (unat (buf ! (off + 1))) * 65536
          + int (unat (buf ! (off + 2))) * 256 + int (unat (buf ! (off + 3)))
        = i mod 4294967296"
    unfolding n int_byte int32_split by simp
  then show ?thesis
    using assms(1-3) int32_mod[OF assms(1,2)] by (simp add: readInt32BE_def Let_def)
qed

lemma read_write_uint16:
  assumes "raw < 65536" "off + 2 \<le> length buf"
    and "take 2 (drop off buf) = [of_nat (raw div 2 ^ 8), of_nat raw]"
  shows "readUInt16BE buf off = Inr raw"
proof -
  have n: "buf ! off = of_nat (raw div 256)" "buf ! (off + 1) = of_nat raw"
    using assms(2) arg_cong[OF assms(3), of "\<lambda>xs. xs ! 0"] arg_cong[OF assms(3), of "\<lambda>xs. xs ! 1"]
    by simp_all
  have "unat (of_nat (raw div 256) :: byte) = raw div 256"
    using assms(1) by (intro unat_byte) simp
  moreover have "unat (of_nat raw :: byte) = raw mod 256"
    by (simp add: unat_of_nat)
  ultimately show ?thesis
    using assms(2) unfolding readUInt16BE_def n by simp
qed

lemma write_bytes_Nil: "off \<le> length buf \<Longrightarrow> write_bytes buf off [] = buf"
  by (simp add: write_bytes_def)

lemma copy_fits:
  assumes "off + length src < length buf"
  shows "copy src buf off = write_bytes buf off src"
  using assms by (cases "src = []") (simp_all add: copy_def write_bytes_Nil)

lemma writeUInt16BE_ok:
  assumes "raw < 65536" "off + 2 \<le> length buf"
  shows "writeUInt16BE buf (Num (int raw)) off = Inr (write_bytes buf off [of_nat (raw div 2 ^ 8), of_nat raw])"
proof -
  have "int raw div 256 = int (raw div 256)" by (simp add: zdiv_int)
  then have "(of_int (int raw div 256) :: byte) = of_nat (raw div 256)" by simp
  then show ?thesis using assms by (simp add: writeUInt16BE_def)
qed

lemma writeOpCode_bytes:
  assumes "raw < 65536" and "opcode x = Num (int raw)"
    and "imm_kind_of (imm_obj x) = Some k"
    and "scan st + length (instruction_bytes raw (imm_obj x)) \<le> length (buffer st)"
  shows "writeOpCode st x =
     Inr (st\<lparr>buffer := write_bytes (buffer st) (scan st) (instruction_bytes raw (imm_obj x)),
             scan := scan st + length (instruction_bytes raw (imm_obj x))\<rparr>)"
proof -
  let ?op = "[of_nat (raw div 2 ^ 8), of_nat raw] :: byte list"
  let ?buf1 = "write_bytes (buffer st) (scan st) ?op"
  have room: "scan st + 2 \<le> length (buffer st)"
    using assms(4) by (simp add: instruction_bytes_def)
  have w1: "writeUInt16BE (buffer st) (opcode x) (scan st) = Inr ?buf1"
    unfolding assms(2) using assms(1) room by (rule writeUInt16BE_ok)
  have len1: "length ?buf1 = length (buffer st)"
    using room by (simp add: length_write_bytes)
  show ?thesis
  proof (cases "imm_obj x")
    case Null
    then show ?thesis
      using w1 by (simp add: writeOpCode_def instruction_bytes_def imm_bytes_def)
  next
    case (ImmNumber n)
    with assms(3) obtain i where n: "n = Num i" and r: "- 2147483648 \<le> i" "i \<le> 2147483647"
      by (auto simp: imm_kind_of_def split: jsnumber.splits if_splits)
    let ?ib = "[of_int (i div 2 ^ 24), of_int (i div 2 ^ 16), of_int (i div 2 ^ 8), of_int i] :: byte list"
    have room4: "scan st + 2 + 4 \<le> length (buffer st)"
      using assms(4) ImmNumber n by (simp add: instruction_bytes_def imm_bytes_def)
    have "writeInt32BE ?buf1 (Num i) (scan st + 2) = Inr (write_bytes ?buf1 (scan st + 2) ?ib)"
      using r room4 len1 by (simp add: writeInt32BE_def)
    moreover have "write_bytes ?buf1 (scan st + 2) ?ib = write_bytes (buffer st) (scan st) (?op @ ?ib)"
      using write_bytes_append[of "scan st" ?op ?ib "buffer st"] room4 by simp
    ultimately show ?thesis
      using w1 ImmNumber n by (simp add: writeOpCode_def instruction_bytes_def imm_bytes_def)
  next
    case (ImmString s)
    let ?enc = "utf8_encode s"
    have roomS: "scan st + 2 + length ?enc + 1 \<le> length (buffer st)"
      using assms(4) ImmString by (simp add: instruction_bytes_def imm_bytes_def)
    have c: "copy ?enc ?buf1 (scan st + 2) = write_bytes (buffer st) (scan st) (?op @ ?enc)"
    proof -
      have "copy ?enc ?buf1 (scan st + 2) = write_bytes ?buf1 (scan st + 2) ?enc"
        using roomS len1 by (intro copy_fits) simp
      also have "\<dots> = write_bytes (buffer st) (scan st) (?op @ ?enc)"
        using write_bytes_append[of "scan st" ?op ?enc "buffer st"] roomS by simp
      finally show ?thesis .
    qed
    let ?buf2 = "write_bytes (buffer st) (scan st) (?op @ ?enc)"
    have len2: "length ?buf2 = length (buffer st)"
      using roomS by (simp add: length_write_bytes)
    have "writeUInt8 ?buf2 0 (scan st + 2 + length ?enc) = Inr (write_bytes ?buf2 (scan st + 2 + length ?enc) [0])"
      using roomS len2 by (simp add: writeUInt8_def)
    moreover have "write_bytes ?buf2 (scan st + 2 + length ?enc) [0] = write_bytes (buffer st) (scan st) ((?op @ ?enc) @ [0])"
      using write_bytes_append[of "scan st" "?op @ ?enc" "[0]" "buffer st"] roomS by (simp add: add.assoc)
    ultimately show ?thesis
      using w1 ImmString c by (simp add: writeOpCode_def instruction_bytes_def imm_bytes_def Let_def add.assoc)
  qed
qed

lemma str_distinct:
  "str ''string'' \<noteq> str ''int''" "str ''string'' \<noteq> str ''component''"
  by (simp_all add: str_def)

lemma readUInt16BE_be16:
  "off + 2 \<le> length buf \<Longrightarrow> readUInt16BE buf off = Inr (be16 (buf ! off) (buf ! (off + 1)))"
  by (simp add: readUInt16BE_def be16_def)

lemma readOpcode_none:
  assumes "readUInt16BE (buffer st) (scan st) = Inr raw"
    and "declared_kind table (Num (int raw)) = NoImmediate"
  shows "\<exists>d w. readOpcode table st = Inr (d, st\<lparr>scan := scan st + 2\<rparr>, w)
           \<and> opcode d = Num (int raw) \<and> imm d = Num 0 \<and> imm_obj d = Null"
  using assms
  by (auto simp add: readOpcode_def declared_kind_def mk_instruction_def Let_def
      split: option.splits list.splits if_splits)

lemma readOpcode_int:
  assumes "readUInt16BE (buffer st) (scan st) = Inr raw"
    and "declared_kind table (Num (int raw)) = IntImmediate"
    and "readInt32BE (buffer st) (scan st + 2) = Inr i"
  shows "\<exists>d. readOpcode table st = Inr (d, st\<lparr>scan := scan st + 6\<rparr>, [])
           \<and> opcode d = Num (int raw) \<and> imm d = Num i \<and> imm_obj d = ImmNumber (Num i)"
  using assms
  by (auto simp add: readOpcode_def declared_kind_def mk_instruction_def Let_def
      split: option.splits list.splits if_splits)

lemma readOpcode_string:
  assumes "readUInt16BE (buffer st) (scan st) = Inr raw"
    and "declared_kind table (Num (int raw)) = StringImmediate"
    and "scan_string (buffer st) (endoffset st) (scan st + 2) = z"
  shows "\<exists>d. readOpcode table st = Inr (d, st\<lparr>scan := z + 1\<rparr>, [])
           \<and> opcode d = Num (int raw) \<and> imm d = Num 0
           \<and> imm_obj d = ImmString (utf8_decode (take (z - (scan st + 2)) (drop (scan st + 2) (buffer st))))"
  using assms
  by (auto simp add: readOpcode_def declared_kind_def mk_instruction_def Let_def toString_utf8_def
      split: option.splits list.splits if_splits)

lemma declared_string:
  "getMapping table opc = Some m \<Longrightarrow> paramTypes m = str ''string'' # rest
     \<Longrightarrow> declared_kind table opc = StringImmediate"
  by (simp add: declared_kind_def str_distinct)

lemma slice_write_bytes_mid:
  assumes "off + length bs \<le> length buf" "k + n \<le> length bs"
  shows "take n (drop (off + k) (write_bytes buf off bs)) = take n (drop k bs)"
  using assms by (simp add: write_bytes_def)

lemma byte_at_write_bytes:
  assumes "off + length bs \<le> length buf" "k < length bs"
  shows "byte_at (write_bytes buf off bs) (off + k) = Some (bs ! k)"
  using assms by (simp add: byte_at_def length_write_bytes nth_write_bytes)

text \<open>
  C1, amended. Let \<open>x\<close> be an instruction with a 16-bit opcode, whose immediate kind is
  the one the first declared parameter type of its opcode implies under the table, and
  whose string immediate, if any, has no NUL code unit and no unpaired surrogate. When
  the buffer has room for the bytes of \<open>x\<close> from the cursor and, for a string immediate,
  the stream does not end before its terminator, \<open>writeOpCode\<close> succeeds, and \<open>readOpcode\<close>
  from the same cursor leaves the cursor where \<open>writeOpCode\<close> left it and returns an
  instruction with the opcode and the immediate (kind and value) of \<open>x\<close>, whose \<open>imm\<close> is
  the numeric projection of that immediate: the integer itself, otherwise 0. So \<open>imm\<close> is
  preserved as well exactly when the \<open>imm\<close> of \<open>x\<close> is that projection, as it is in every
  instruction \<open>readOpcode\<close> returns; \<open>writeOpCode\<close> never reads \<open>imm\<close>.
\<close>

theorem encode_decode_roundtrip:
  assumes raw: "raw < 65536" "opcode x = Num (int raw)"
    and kind: "imm_kind_of (imm_obj x) = Some (declared_kind table (opcode x))"
    and strs: "case imm_obj x of ImmString s \<Rightarrow> well_formed_utf16 s \<and> 0 \<notin> set s | _ \<Rightarrow> True"
    and room: "scan st + length (instruction_bytes raw (imm_obj x)) \<le> length (buffer st)"
    and stream: "case imm_obj x of
                   ImmString s \<Rightarrow> scan st + 2 + length (utf8_encode s) \<le> endoffset st
                 | _ \<Rightarrow> True"
  shows "\<exists>st' d w. writeOpCode st x = Inr st'
           \<and> readOpcode table (st'\<lparr>scan := scan st\<rparr>) = Inr (d, st', w)
           \<and> opcode d = opcode x \<and> imm_obj d = imm_obj x
           \<and> imm d = imm_projection (imm_obj x)
           \<and> (imm d = imm x \<longleftrightarrow> imm x = imm_projection (imm_obj x))"
proof -
  let ?B = "instruction_bytes raw (imm_obj x)"
  let ?off = "scan st"
  let ?buf = "write_bytes (buffer st) ?off ?B"
  let ?st' = "st\<lparr>buffer := ?buf, scan := ?off + length ?B\<rparr>"
  let ?rs = "?st'\<lparr>scan := ?off\<rparr>"
  have w: "writeOpCode st x = Inr ?st'"
    using raw kind room by (rule writeOpCode_bytes)
  have len2: "2 \<le> length ?B" by (simp add: instruction_bytes_def)
  have "take 2 (drop (?off + 0) ?buf) = take 2 (drop 0 ?B)"
    using room len2 by (intro slice_write_bytes_mid) simp_all
  then have op: "take 2 (drop ?off ?buf) = [of_nat (raw div 2 ^ 8), of_nat raw]"
    by (simp add: instruction_bytes_def)
  have lenbuf: "length ?buf = length (buffer st)"
    using room by (simp add: length_write_bytes)
  have rd: "readUInt16BE (buffer ?rs) (scan ?rs) = Inr raw"
    using raw(1) room len2 op lenbuf by (intro read_write_uint16) simp_all
  show ?thesis
  proof (cases "imm_obj x")
    case Null
    then have "declared_kind table (Num (int raw)) = NoImmediate"
      using kind raw(2) by (simp add: imm_kind_of_def)
    from readOpcode_none[OF rd this]
    obtain d w' where "readOpcode table ?rs = Inr (d, ?rs\<lparr>scan := scan ?rs + 2\<rparr>, w')"
      "opcode d = Num (int raw)" "imm d = Num 0" "imm_obj d = Null"
      by blast
    moreover have "?rs\<lparr>scan := scan ?rs + 2\<rparr> = ?st'"
      using Null by (simp add: instruction_bytes_def imm_bytes_def)
    ultimately show ?thesis
      using w raw(2) Null by (auto simp add: imm_projection_def)
  next
    case (ImmNumber n)
    with kind obtain i where n: "n = Num i" and r: "- 2147483648 \<le> i" "i \<le> 2147483647"
      by (auto simp: imm_kind_of_def split: jsnumber.splits if_splits)
    have dk: "declared_kind table (Num (int raw)) = IntImmediate"
      using kind raw(2) ImmNumber n r by (simp add: imm_kind_of_def)
    have B: "?B = [of_nat (raw div 2 ^ 8), of_nat raw,
                   of_int (i div 2 ^ 24), of_int (i div 2 ^ 16), of_int (i div 2 ^ 8), of_int i]"
      using ImmNumber n by (simp add: instruction_bytes_def imm_bytes_def)
    have "take 4 (drop (?off + 2) ?buf) = take 4 (drop 2 ?B)"
      using room by (intro slice_write_bytes_mid) (simp_all add: B)
    then have "take 4 (drop (?off + 2) ?buf)
        = [of_int (i div 2 ^ 24), of_int (i div 2 ^ 16), of_int (i div 2 ^ 8), of_int i]"
      by (simp add: B)
    then have "readInt32BE (buffer ?rs) (scan ?rs + 2) = Inr i"
      using r room lenbuf by (intro read_write_int32) (simp_all add: B)
    from readOpcode_int[OF rd dk this]
    obtain d where "readOpcode table ?rs = Inr (d, ?rs\<lparr>scan := scan ?rs + 6\<rparr>, [])"
      "opcode d = Num (int raw)" "imm d = Num i" "imm_obj d = ImmNumber (Num i)"
      by blast
    moreover have "?rs\<lparr>scan := scan ?rs + 6\<rparr> = ?st'"
      by (simp add: B)
    ultimately show ?thesis
      using w raw(2) ImmNumber n by (auto simp add: imm_projection_def)
  next
    case (ImmString s)
    let ?enc = "utf8_encode s"
    let ?z = "?off + (2 + length ?enc)"
    have wf: "well_formed_utf16 s" and nz: "0 \<notin> set s"
      using strs ImmString by simp_all
    have dk: "declared_kind table (Num (int raw)) = StringImmediate"
      using kind raw(2) ImmString by (simp add: imm_kind_of_def)
    have B: "?B = [of_nat (raw div 2 ^ 8), of_nat raw] @ ?enc @ [0]"
      using ImmString by (simp add: instruction_bytes_def imm_bytes_def)
    have lenB: "length ?B = 2 + length ?enc + 1" by (simp add: B)
    have zero: "byte_at ?buf ?z = Some 0"
    proof -
      have "byte_at ?buf ?z = Some (?B ! (2 + length ?enc))"
        using room by (intro byte_at_write_bytes) (simp_all add: lenB)
      moreover have "?B ! (2 + length ?enc) = 0"
        unfolding B by (simp add: nth_append)
      ultimately show ?thesis by simp
    qed
    have nonzero: "byte_at ?buf i \<noteq> Some 0" if "?off + 2 \<le> i" "i < ?z" for i
    proof -
      define k where "k = i - (?off + 2)"
      have k: "i = ?off + (2 + k)" "k < length ?enc"
        using that unfolding k_def by linarith+
      have "byte_at ?buf (?off + (2 + k)) = Some (?B ! (2 + k))"
        using room k(2) by (intro byte_at_write_bytes) (simp_all add: lenB)
      moreover have "?B ! (2 + k) = ?enc ! k"
        using k(2) by (simp add: B nth_append)
      moreover have "?enc ! k \<noteq> 0"
        using utf8_encode_nonzero[OF nz] k(2) by (metis nth_mem)
      ultimately show ?thesis using k(1) by simp
    qed
    have sc: "scan_string (buffer ?rs) (endoffset ?rs) (scan ?rs + 2) = ?z"
      using stream ImmString zero nonzero by (intro scan_string_stop) simp_all
    have "take (length ?enc) (drop (?off + 2) ?buf) = take (length ?enc) (drop 2 ?B)"
      using room by (intro slice_write_bytes_mid) (simp_all add: lenB)
    then have slice: "take (?z - (?off + 2)) (drop (?off + 2) ?buf) = ?enc"
      by (simp add: B)
    from readOpcode_string[OF rd dk sc]
    obtain d where "readOpcode table ?rs = Inr (d, ?rs\<lparr>scan := ?z + 1\<rparr>, [])"
      "opcode d = Num (int raw)" "imm d = Num 0"
      "imm_obj d = ImmString (utf8_decode (take (?z - (scan ?rs + 2)) (drop (scan ?rs + 2) (buffer ?rs))))"
      by blast
    moreover have "?rs\<lparr>scan := ?z + 1\<rparr> = ?st'"
      by (simp add: lenB)
    moreover have "utf8_decode (take (?z - (scan ?rs + 2)) (drop (scan ?rs + 2) (buffer ?rs))) = s"
      using slice utf8_roundtrip[OF wf] by simp
    ultimately show ?thesis
      using w raw(2) ImmString by (auto simp add: imm_projection_def)
  qed
qed

lemmas codec_eval =
  example_instruction_def imm_kind_of_def declared_kind_def getMapping_def example_table_def
  str_def fresh_state_def instruction_bytes_def imm_bytes_def utf8_bytes_def
  is_high_surrogate_def is_low_surrogate_def imm_projection_def

lemmas write_eval =
  writeOpCode_def writeUInt16BE_def writeInt32BE_def writeUInt8_def copy_def write_bytes_def

text \<open>
  C1, as stated, fails for a string immediate that contains a NUL code unit or an
  unpaired surrogate. Opcode 2 declares the first parameter type \<open>string\<close>. The string
  of the code units \<open>41 00 42\<close> ("A", NUL, "B") is written as \<open>41 00 42 00\<close>; decoding
  stops at the first zero byte, returns "A" and leaves the cursor at 4 instead of 6. The one-unit string U+D800 is written as the
  bytes of U+FFFD and decoded as U+FFFD. It fails as well for an instruction whose \<open>imm\<close>
  is not the numeric projection of its immediate: opcode 3 declares no parameter, the
  instruction with \<open>imm = 5\<close> and no immediate is written as the two opcode bytes, and
  is read back with \<open>imm = 0\<close>.
\<close>

theorem roundtrip_counterexample:
  "declared_kind example_table (Num 2) = StringImmediate
   \<and> imm_kind_of (ImmString [0x41, 0, 0x42]) = Some StringImmediate
   \<and> writeOpCode (fresh_state 6) (example_instruction 2 (str ''push_string'') (ImmString [0x41, 0, 0x42]))
       = Inr \<lparr>buffer = [0, 2, 0x41, 0, 0x42, 0], scan = 6, endoffset = 6\<rparr>
   \<and> readOpcode example_table \<lparr>buffer = [0, 2, 0x41, 0, 0x42, 0], scan = 0, endoffset = 6\<rparr>
       = Inr (example_instruction 2 (str ''push_string'') (ImmString [0x41]),
              \<lparr>buffer = [0, 2, 0x41, 0, 0x42, 0], scan = 4, endoffset = 6\<rparr>, [])
   \<and> imm_kind_of (ImmString [0xD800]) = Some StringImmediate
   \<and> writeOpCode (fresh_state 6) (example_instruction 2 (str ''push_string'') (ImmString [0xD800]))
       = Inr \<lparr>buffer = [0, 2, 0xEF, 0xBF, 0xBD, 0], scan = 6, endoffset = 6\<rparr>
   \<and> readOpcode example_table \<lparr>buffer = [0, 2, 0xEF, 0xBF, 0xBD, 0], scan = 0, endoffset = 6\<rparr>
       = Inr (example_instruction 2 (str ''push_string'') (ImmString [0xFFFD]),
              \<lparr>buffer = [0, 2, 0xEF, 0xBF, 0xBD, 0], scan = 6, endoffset = 6\<rparr>, [])
   \<and> declared_kind example_table (Num 3) = NoImmediate
   \<and> imm_kind_of Null = Some NoImmediate
   \<and> writeOpCode (fresh_state 2) ((example_instruction 3 (str ''pop'') Null)\<lparr>imm := Num 5\<rparr>)
       = Inr \<lparr>buffer = [0, 3], scan = 2, endoffset = 2\<rparr>
   \<and> readOpcode example_table \<lparr>buffer = [0, 3], scan = 0, endoffset = 2\<rparr>
       = Inr ((example_instruction 3 (str ''pop'') Null)\<lparr>imm := Num 0\<rparr>,
              \<lparr>buffer = [0, 3], scan = 2, endoffset = 2\<rparr>, [])"
proof (intro conjI)
  show "declared_kind example_table (Num 3) = NoImmediate"
    by (simp add: codec_eval)
  show "imm_kind_of Null = Some NoImmediate"
    by (simp add: codec_eval)
  show "writeOpCode (fresh_state 2) ((example_instruction 3 (str ''pop'') Null)\<lparr>imm := Num 5\<rparr>)
       = Inr \<lparr>buffer = [0, 3], scan = 2, endoffset = 2\<rparr>"
    by (simp add: codec_eval write_eval)
  show "readOpcode example_table \<lparr>buffer = [0, 3], scan = 0, endoffset = 2\<rparr>
       = Inr ((example_instruction 3 (str ''pop'') Null)\<lparr>imm := Num 0\<rparr>,
              \<lparr>buffer = [0, 3], scan = 2, endoffset = 2\<rparr>, [])"
    apply (simp add: readOpcode_def readUInt16BE_def getMapping_def example_table_def str_def
        del: add_2_eq_Suc add_2_eq_Suc')
    apply (simp add: mk_instruction_def codec_eval)
    done
  show "declared_kind example_table (Num 2) = StringImmediate"
    by (simp add: codec_eval)
  show "imm_kind_of (ImmString [0x41, 0, 0x42]) = Some StringImmediate"
    "imm_kind_of (ImmString [0xD800]) = Some StringImmediate"
    by (simp_all add: codec_eval)
  show "writeOpCode (fresh_state 6) (example_instruction 2 (str ''push_string'') (ImmString [0x41, 0, 0x42]))
       = Inr \<lparr>buffer = [0, 2, 0x41, 0, 0x42, 0], scan = 6, endoffset = 6\<rparr>"
    by (simp add: codec_eval write_eval)
  show "writeOpCode (fresh_state 6) (example_instruction 2 (str ''push_string'') (ImmString [0xD800]))
       = Inr \<lparr>buffer = [0, 2, 0xEF, 0xBF, 0xBD, 0], scan = 6, endoffset = 6\<rparr>"
    by (simp add: codec_eval write_eval)
  show "readOpcode example_table \<lparr>buffer = [0, 2, 0x41, 0, 0x42, 0], scan = 0, endoffset = 6\<rparr>
       = Inr (example_instruction 2 (str ''push_string'') (ImmString [0x41]),
              \<lparr>buffer = [0, 2, 0x41, 0, 0x42, 0], scan = 4, endoffset = 6\<rparr>, [])"
    apply (simp add: readOpcode_def readUInt16BE_def getMapping_def example_table_def str_def
        del: add_2_eq_Suc add_2_eq_Suc')
    apply (simp add: mk_instruction_def Let_def del: add_2_eq_Suc add_2_eq_Suc')
    apply (simp add: scan_string.simps byte_at_def del: add_2_eq_Suc add_2_eq_Suc')
    apply (simp add: toString_utf8_def codec_eval)
    done
  show "readOpcode example_table \<lparr>buffer = [0, 2, 0xEF, 0xBF, 0xBD, 0], scan = 0, endoffset = 6\<rparr>
       = Inr (example_instruction 2 (str ''push_string'') (ImmString [0xFFFD]),
              \<lparr>buffer = [0, 2, 0xEF, 0xBF, 0xBD, 0], scan = 6, endoffset = 6\<rparr>, [])"
    apply (simp add: readOpcode_def readUInt16BE_def getMapping_def example_table_def str_def
        del: add_2_eq_Suc add_2_eq_Suc')
    apply (simp add: mk_instruction_def Let_def del: add_2_eq_Suc add_2_eq_Suc')
    apply (simp add: scan_string.simps byte_at_def del: add_2_eq_Suc add_2_eq_Suc')
    apply (simp add: toString_utf8_def utf16_units_def codec_eval)
    done
qed

theorem encode_decode_roundtrip_witness:
  "(\<exists>st' d w.
      writeOpCode (fresh_state 8) (example_instruction 1 (str ''push_int'') (ImmNumber (Num (- 2)))) = Inr st'
      \<and> readOpcode example_table (st'\<lparr>scan := scan (fresh_state 8)\<rparr>) = Inr (d, st', w)
      \<and> opcode d = opcode (example_instruction 1 (str ''push_int'') (ImmNumber (Num (- 2))))
      \<and> imm d = imm (example_instruction 1 (str ''push_int'') (ImmNumber (Num (- 2))))
      \<and> imm_obj d = imm_obj (example_instruction 1 (str ''push_int'') (ImmNumber (Num (- 2)))))
   \<and> (\<exists>st' d w.
      writeOpCode (fresh_state 16) (example_instruction 2 (str ''push_string'') (ImmString [0x41, 0xE9, 0x20AC, 0xD83D, 0xDE00])) = Inr st'
      \<and> readOpcode example_table (st'\<lparr>scan := scan (fresh_state 16)\<rparr>) = Inr (d, st', w)
      \<and> opcode d = opcode (example_instruction 2 (str ''push_string'') (ImmString [0x41, 0xE9, 0x20AC, 0xD83D, 0xDE00]))
      \<and> imm d = imm (example_instruction 2 (str ''push_string'') (ImmString [0x41, 0xE9, 0x20AC, 0xD83D, 0xDE00]))
      \<and> imm_obj d = imm_obj (example_instruction 2 (str ''push_string'') (ImmString [0x41, 0xE9, 0x20AC, 0xD83D, 0xDE00])))
   \<and> (\<exists>st' d w.
      writeOpCode (fresh_state 4) (example_instruction 3 (str ''pop'') Null) = Inr st'
      \<and> readOpcode example_table (st'\<lparr>scan := scan (fresh_state 4)\<rparr>) = Inr (d, st', w)
      \<and> opcode d = opcode (example_instruction 3 (str ''pop'') Null)
      \<and> imm d = imm (example_instruction 3 (str ''pop'') Null)
      \<and> imm_obj d = imm_obj (example_instruction 3 (str ''pop'') Null))"
proof (intro conjI)
  have "\<exists>st' d w.
      writeOpCode (fresh_state 8) (example_instruction 1 (str ''push_int'') (ImmNumber (Num (- 2)))) = Inr st'
      \<and> readOpcode example_table (st'\<lparr>scan := scan (fresh_state 8)\<rparr>) = Inr (d, st', w)
      \<and> opcode d = opcode (example_instruction 1 (str ''push_int'') (ImmNumber (Num (- 2))))
      \<and> imm_obj d = imm_obj (example_instruction 1 (str ''push_int'') (ImmNumber (Num (- 2))))
      \<and> imm d = imm_projection (imm_obj (example_instruction 1 (str ''push_int'') (ImmNumber (Num (- 2)))))
      \<and> (imm d = imm (example_instruction 1 (str ''push_int'') (ImmNumber (Num (- 2))))
           \<longleftrightarrow> imm (example_instruction 1 (str ''push_int'') (ImmNumber (Num (- 2)))) = imm_projection (imm_obj (example_instruction 1 (str ''push_int'') (ImmNumber (Num (- 2))))))"
    by (rule encode_decode_roundtrip [where raw = 1]) (simp_all add: codec_eval)
  then obtain st' d w where
      "writeOpCode (fresh_state 8) (example_instruction 1 (str ''push_int'') (ImmNumber (Num (- 2)))) = Inr st'"
      "readOpcode example_table (st'\<lparr>scan := scan (fresh_state 8)\<rparr>) = Inr (d, st', w)"
      "opcode d = opcode (example_instruction 1 (str ''push_int'') (ImmNumber (Num (- 2))))"
      "imm_obj d = imm_obj (example_instruction 1 (str ''push_int'') (ImmNumber (Num (- 2))))"
      "imm d = imm_projection (imm_obj (example_instruction 1 (str ''push_int'') (ImmNumber (Num (- 2)))))"
    by blast
  moreover have "imm (example_instruction 1 (str ''push_int'') (ImmNumber (Num (- 2)))) = imm_projection (imm_obj (example_instruction 1 (str ''push_int'') (ImmNumber (Num (- 2)))))"
    by (simp add: example_instruction_def)
  ultimately show "\<exists>st' d w.
      writeOpCode (fresh_state 8) (example_instruction 1 (str ''push_int'') (ImmNumber (Num (- 2)))) = Inr st'
      \<and> readOpcode example_table (st'\<lparr>scan := scan (fresh_state 8)\<rparr>) = Inr (d, st', w)
      \<and> opcode d = opcode (example_instruction 1 (str ''push_int'') (ImmNumber (Num (- 2))))
      \<and> imm d = imm (example_instruction 1 (str ''push_int'') (ImmNumber (Num (- 2))))
      \<and> imm_obj d = imm_obj (example_instruction 1 (str ''push_int'') (ImmNumber (Num (- 2))))"
    by simp
  have "\<exists>st' d w.
      writeOpCode (fresh_state 16) (example_instruction 2 (str ''push_string'') (ImmString [0x41, 0xE9, 0x20AC, 0xD83D, 0xDE00])) = Inr st'
      \<and> readOpcode example_table (st'\<lparr>scan := scan (fresh_state 16)\<rparr>) = Inr (d, st', w)
      \<and> opcode d = opcode (example_instruction 2 (str ''push_string'') (ImmString [0x41, 0xE9, 0x20AC, 0xD83D, 0xDE00]))
      \<and> imm_obj d = imm_obj (example_instruction 2 (str ''push_string'') (ImmString [0x41, 0xE9, 0x20AC, 0xD83D, 0xDE00]))
      \<and> imm d = imm_projection (imm_obj (example_instruction 2 (str ''push_string'') (ImmString [0x41, 0xE9, 0x20AC, 0xD83D, 0xDE00])))
      \<and> (imm d = imm (example_instruction 2 (str ''push_string'') (ImmString [0x41, 0xE9, 0x20AC, 0xD83D, 0xDE00]))
           \<longleftrightarrow> imm (example_instruction 2 (str ''push_string'') (ImmString [0x41, 0xE9, 0x20AC, 0xD83D, 0xDE00])) = imm_projection (imm_obj (example_instruction 2 (str ''push_string'') (ImmString [0x41, 0xE9, 0x20AC, 0xD83D, 0xDE00]))))"
    by (rule encode_decode_roundtrip [where raw = 2]) (simp_all add: codec_eval)
  then obtain st' d w where
      "writeOpCode (fresh_state 16) (example_instruction 2 (str ''push_string'') (ImmString [0x41, 0xE9, 0x20AC, 0xD83D, 0xDE00])) = Inr st'"
      "readOpcode example_table (st'\<lparr>scan := scan (fresh_state 16)\<rparr>) = Inr (d, st', w)"
      "opcode d = opcode (example_instruction 2 (str ''push_string'') (ImmString [0x41, 0xE9, 0x20AC, 0xD83D, 0xDE00]))"
      "imm_obj d = imm_obj (example_instruction 2 (str ''push_string'') (ImmString [0x41, 0xE9, 0x20AC, 0xD83D, 0xDE00]))"
      "imm d = imm_projection (imm_obj (example_instruction 2 (str ''push_string'') (ImmString [0x41, 0xE9, 0x20AC, 0xD83D, 0xDE00])))"
    by blast
  moreover have "imm (example_instruction 2 (str ''push_string'') (ImmString [0x41, 0xE9, 0x20AC, 0xD83D, 0xDE00])) = imm_projection (imm_obj (example_instruction 2 (str ''push_string'') (ImmString [0x41, 0xE9, 0x20AC, 0xD83D, 0xDE00])))"
    by (simp add: example_instruction_def)
  ultimately show "\<exists>st' d w.
      writeOpCode (fresh_state 16) (example_instruction 2 (str ''push_string'') (ImmString [0x41, 0xE9, 0x20AC, 0xD83D, 0xDE00])) = Inr st'
      \<and> readOpcode example_table (st'\<lparr>scan := scan (fresh_state 16)\<rparr>) = Inr (d, st', w)
      \<and> opcode d = opcode (example_instruction 2 (str ''push_string'') (ImmString [0x41, 0xE9, 0x20AC, 0xD83D, 0xDE00]))
      \<and> imm d = imm (example_instruction 2 (str ''push_string'') (ImmString [0x41, 0xE9, 0x20AC, 0xD83D, 0xDE00]))
      \<and> imm_obj d = imm_obj (example_instruction 2 (str ''push_string'') (ImmString [0x41, 0xE9, 0x20AC, 0xD83D, 0xDE00]))"
    by simp
  have "\<exists>st' d w.
      writeOpCode (fresh_state 4) (example_instruction 3 (str ''pop'') Null) = Inr st'
      \<and> readOpcode example_table (st'\<lparr>scan := scan (fresh_state 4)\<rparr>) = Inr (d, st', w)
      \<and> opcode d = opcode (example_instruction 3 (str ''pop'') Null)
      \<and> imm_obj d = imm_obj (example_instruction 3 (str ''pop'') Null)
      \<and> imm d = imm_projection (imm_obj (example_instruction 3 (str ''pop'') Null))
      \<and> (imm d = imm (example_instruction 3 (str ''pop'') Null)
           \<longleftrightarrow> imm (example_instruction 3 (str ''pop'') Null) = imm_projection (imm_obj (example_instruction 3 (str ''pop'') Null)))"
    by (rule encode_decode_roundtrip [where raw = 3]) (simp_all add: codec_eval)
  then obtain st' d w where
      "writeOpCode (fresh_state 4) (example_instruction 3 (str ''pop'') Null) = Inr st'"
      "readOpcode example_table (st'\<lparr>scan := scan (fresh_state 4)\<rparr>) = Inr (d, st', w)"
      "opcode d = opcode (example_instruction 3 (str ''pop'') Null)"
      "imm_obj d = imm_obj (example_instruction 3 (str ''pop'') Null)"
      "imm d = imm_projection (imm_obj (example_instruction 3 (str ''pop'') Null))"
    by blast
  moreover have "imm (example_instruction 3 (str ''pop'') Null) = imm_projection (imm_obj (example_instruction 3 (str ''pop'') Null))"
    by (simp add: example_instruction_def)
  ultimately show "\<exists>st' d w.
      writeOpCode (fresh_state 4) (example_instruction 3 (str ''pop'') Null) = Inr st'
      \<and> readOpcode example_table (st'\<lparr>scan := scan (fresh_state 4)\<rparr>) = Inr (d, st', w)
      \<and> opcode d = opcode (example_instruction 3 (str ''pop'') Null)
      \<and> imm d = imm (example_instruction 3 (str ''pop'') Null)
      \<and> imm_obj d = imm_obj (example_instruction 3 (str ''pop'') Null)"
    by simp
qed

text \<open>
  C8. When the two bytes at the cursor are a big-endian opcode \<open>raw\<close> that the table does
  not map, \<open>readOpcode\<close> does not fail: it returns the instruction named
  \<open>unknown_<raw>\<close> with return type \<open>unknown\<close>, no parameter types and no immediate,
  passes one line to \<open>console.warn\<close>, and advances the cursor by exactly 2.
\<close>

theorem readOpcode_unknown:
  assumes "scan st + 2 \<le> length (buffer st)"
    and "raw = be16 (buffer st ! scan st) (buffer st ! (scan st + 1))"
    and "getMapping table (Num (int raw)) = None"
  shows "readOpcode table st =
     Inr (\<lparr>opcode = Num (int raw), name = str ''unknown_'' @ show_radix 10 raw,
           returnType = str ''unknown'', paramTypes = [], imm = Num 0, imm_obj = Null\<rparr>,
          st\<lparr>scan := scan st + 2\<rparr>,
          [str ''Unknown CS2 opcode: '' @ show_radix 10 raw @ str '' (0x'' @ show_radix 16 raw
             @ str '')''])"
  using assms by (simp add: readOpcode_def readUInt16BE_be16 mk_instruction_def)

theorem readOpcode_unknown_witness:
  "readOpcode example_table \<lparr>buffer = [1, 1, 9], scan = 0, endoffset = 3\<rparr> =
     Inr (\<lparr>opcode = Num 257, name = str ''unknown_257'',
           returnType = str ''unknown'', paramTypes = [], imm = Num 0, imm_obj = Null\<rparr>,
          \<lparr>buffer = [1, 1, 9], scan = 2, endoffset = 3\<rparr>,
          [str ''Unknown CS2 opcode: 257 (0x101)''])"
proof -
  have "show_radix 10 257 = str ''257''" "show_radix 16 257 = str ''101''"
    by (simp_all add: show_radix.simps digit_char_def str_def)
  moreover have "be16 1 1 = 257" by (simp add: be16_def)
  moreover have "getMapping example_table (Num 257) = None"
    by (simp add: getMapping_def example_table_def)
  ultimately show ?thesis
    using readOpcode_unknown [of "\<lparr>buffer = [1, 1, 9], scan = 0, endoffset = 3\<rparr>" 257 example_table]
    by (simp add: str_def)
qed

text \<open>
  C9. For an opcode whose first declared parameter type is \<open>string\<close>: when the five bytes
  at the cursor are the opcode (big-endian), \<open>'A'\<close>, \<open>'B'\<close> and \<open>0x00\<close>, and the stream does
  not end before the two characters do, \<open>readOpcode\<close> returns the string immediate "AB"
  and advances the cursor by exactly 5.
\<close>

theorem readOpcode_string_AB:
  assumes "take 5 (drop (scan st) (buffer st)) = [hi, lo, 0x41, 0x42, 0]"
    and "getMapping table (Num (int (be16 hi lo))) = Some m"
    and "paramTypes m = str ''string'' # rest"
    and "scan st + 4 \<le> endoffset st"
  shows "\<exists>d. readOpcode table st = Inr (d, st\<lparr>scan := scan st + 5\<rparr>, [])
           \<and> imm_obj d = ImmString (str ''AB'')"
proof -
  let ?off = "scan st" and ?buf = "buffer st"
  have len: "?off + 5 \<le> length ?buf"
    using arg_cong[OF assms(1), of length] by simp
  have n: "?buf ! ?off = hi" "?buf ! (?off + 1) = lo" "?buf ! (?off + 2) = 0x41"
    "?buf ! (?off + 3) = 0x42" "?buf ! (?off + 4) = 0"
    using len arg_cong[OF assms(1), of "\<lambda>xs. xs ! 0"] arg_cong[OF assms(1), of "\<lambda>xs. xs ! 1"]
      arg_cong[OF assms(1), of "\<lambda>xs. xs ! 2"] arg_cong[OF assms(1), of "\<lambda>xs. xs ! 3"]
      arg_cong[OF assms(1), of "\<lambda>xs. xs ! 4"]
    by simp_all
  have rd: "readUInt16BE ?buf ?off = Inr (be16 hi lo)"
    using len readUInt16BE_be16[of ?off ?buf] unfolding n by simp
  have dk: "declared_kind table (Num (int (be16 hi lo))) = StringImmediate"
    using assms(2,3) by (rule declared_string)
  have sc: "scan_string ?buf (endoffset st) (?off + 2) = ?off + 4"
  proof (rule scan_string_stop)
    show "?off + 2 \<le> ?off + 4" by simp
    show "?off + 4 \<le> endoffset st" by (rule assms(4))
    show "?off + 4 < endoffset st \<longrightarrow> byte_at ?buf (?off + 4) = Some 0"
      using len by (simp add: byte_at_def n)
    show "\<forall>i. ?off + 2 \<le> i \<and> i < ?off + 4 \<longrightarrow> byte_at ?buf i \<noteq> Some 0"
    proof (intro allI impI)
      fix i assume "?off + 2 \<le> i \<and> i < ?off + 4"
      then have "i = ?off + 2 \<or> i = ?off + 3" by linarith
      then show "byte_at ?buf i \<noteq> Some 0"
      proof
        assume "i = ?off + 2"
        then show ?thesis using len by (simp only: byte_at_def n) simp
      next
        assume "i = ?off + 3"
        then show ?thesis using len by (simp only: byte_at_def n) simp
      qed
    qed
  qed
  have "take 2 (drop (?off + 2) ?buf) = take 2 (drop 2 (take 5 (drop ?off ?buf)))"
    by (simp add: drop_take add.commute)
  then have slice: "take (?off + 4 - (?off + 2)) (drop (?off + 2) ?buf) = [0x41, 0x42]"
    by (simp add: assms(1))
  have "utf8_decode [0x41, 0x42] = str ''AB''"
    by (simp add: str_def)
  with readOpcode_string[OF rd dk sc] slice show ?thesis
    by auto
qed

theorem readOpcode_string_AB_witness:
  "\<exists>d. readOpcode example_table \<lparr>buffer = [7, 0, 2, 0x41, 0x42, 0, 0, 3], scan = 1, endoffset = 8\<rparr>
          = Inr (d, \<lparr>buffer = [7, 0, 2, 0x41, 0x42, 0, 0, 3], scan = 6, endoffset = 8\<rparr>, [])
        \<and> imm_obj d = ImmString (str ''AB'')"
proof -
  have "getMapping example_table (Num (int (be16 0 2))) = Some \<lparr>opcode = Num 2, name = str ''push_string'', returnType = str ''void'',
                  paramTypes = [str ''string'']\<rparr>"
    by (simp add: getMapping_def example_table_def be16_def)
  from readOpcode_string_AB [of "\<lparr>buffer = [7, 0, 2, 0x41, 0x42, 0, 0, 3], scan = 1, endoffset = 8\<rparr>" 0 2, OF _ this]
  show ?thesis by simp
qed

text \<open>
  C10. For an opcode whose first declared parameter type is \<open>string\<close>: when no zero byte
  lies between the cursor after the opcode and \<open>endoffset\<close>, \<open>readOpcode\<close> reports no
  error; the string immediate is the text of the bytes from that cursor up to
  \<open>endoffset\<close>, and the cursor is left at \<open>endoffset + 1\<close>.
\<close>

theorem readOpcode_unterminated_string:
  assumes "scan st + 2 \<le> length (buffer st)"
    and "getMapping table (Num (int (be16 (buffer st ! scan st) (buffer st ! (scan st + 1))))) = Some m"
    and "paramTypes m = str ''string'' # rest"
    and "scan st + 2 \<le> endoffset st"
    and "\<forall>i. scan st + 2 \<le> i \<and> i < endoffset st \<longrightarrow> byte_at (buffer st) i \<noteq> Some 0"
  shows "\<exists>d. readOpcode table st = Inr (d, st\<lparr>scan := endoffset st + 1\<rparr>, [])
           \<and> imm_obj d = ImmString (utf8_decode
                (take (endoffset st - (scan st + 2)) (drop (scan st + 2) (buffer st))))"
proof -
  have rd: "readUInt16BE (buffer st) (scan st)
      = Inr (be16 (buffer st ! scan st) (buffer st ! (scan st + 1)))"
    using assms(1) by (rule readUInt16BE_be16)
  have dk: "declared_kind table (Num (int (be16 (buffer st ! scan st) (buffer st ! (scan st + 1)))))
      = StringImmediate"
    using assms(2,3) by (rule declared_string)
  have sc: "scan_string (buffer st) (endoffset st) (scan st + 2) = endoffset st"
    using assms(4,5) by (intro scan_string_stop) simp_all
  from readOpcode_string[OF rd dk sc] show ?thesis by blast
qed

theorem readOpcode_unterminated_string_witness:
  "\<exists>d. readOpcode example_table \<lparr>buffer = [0, 2, 0x41, 0x42, 0x43], scan = 0, endoffset = 5\<rparr>
          = Inr (d, \<lparr>buffer = [0, 2, 0x41, 0x42, 0x43], scan = 6, endoffset = 5\<rparr>, [])
        \<and> imm_obj d = ImmString (str ''ABC'')"
proof -
  have m: "getMapping example_table (Num (int (be16 0 2))) = Some \<lparr>opcode = Num 2, name = str ''push_string'', returnType = str ''void'',
                  paramTypes = [str ''string'']\<rparr>"
    by (simp add: getMapping_def example_table_def be16_def)
  have nz: "\<forall>i. 2 \<le> i \<and> i < 5 \<longrightarrow> byte_at [0, 2, 0x41, 0x42, 0x43] i \<noteq> Some (0::byte)"
  proof (intro allI impI)
    fix i :: nat assume "2 \<le> i \<and> i < 5"
    then have "i = 2 \<or> i = 3 \<or> i = 4" by linarith
    then show "byte_at [0, 2, 0x41, 0x42, 0x43] i \<noteq> Some (0::byte)"
      by (auto simp add: byte_at_def)
  qed
  have "utf8_decode [0x41, 0x42, 0x43] = str ''ABC''"
    by (simp add: str_def)
  with readOpcode_unterminated_string [of "\<lparr>buffer = [0, 2, 0x41, 0x42, 0x43], scan = 0, endoffset = 5\<rparr>" example_table _ "[]"] m nz
  show ?thesis by simp
qed

section \<open>Properties of the opcode table\<close>

lemmas parse_eval =
  well_formed_def malformed_def significant_def line_tokens_def line_opcode_def line_name_def
  line_def_def trim_def startsWith_def str_def is_ws_def parseInt_def digit_val_def
  to_double_def Let_def

lemmas table_eval =
  parseFromString_def parse_line_def new_mappings_def getMapping_def getOpcodeByName_def

lemma parse_line_well_formed:
  "well_formed line \<Longrightarrow>
     parse_line loader line =
       loader\<lparr>mappings := AList.update (line_opcode line) (line_def line) (mappings loader),
              nameToOpcode := AList.update (line_name line) (line_opcode line) (nameToOpcode loader)\<rparr>"
  by (simp add: parse_line_def well_formed_def significant_def line_tokens_def line_opcode_def
      line_name_def line_def_def Let_def)

lemma parse_line_skip: "\<not> well_formed line \<Longrightarrow> parse_line loader line = loader"
  by (auto simp add: parse_line_def well_formed_def significant_def line_tokens_def Let_def)

lemma parse_lines_append:
  "parse_lines loader (xs @ ys) = parse_lines (parse_lines loader xs) ys"
  by (induction xs arbitrary: loader) simp_all

lemma parse_lines_filter:
  "parse_lines loader ls = parse_lines loader (filter well_formed ls)"
  by (induction ls arbitrary: loader) (simp_all add: parse_line_skip)

lemma mappings_unchanged:
  assumes "\<forall>l \<in> set ls. well_formed l \<longrightarrow> line_opcode l \<noteq> k"
  shows "map_of (mappings (parse_lines loader ls)) k = map_of (mappings loader) k"
  using assms
proof (induction ls arbitrary: loader)
  case Nil
  then show ?case by simp
next
  case (Cons l ls)
  then show ?case
    by (cases "well_formed l") (auto simp add: parse_line_skip parse_line_well_formed update_conv')
qed

lemma names_unchanged:
  assumes "\<forall>l \<in> set ls. well_formed l \<longrightarrow> line_name l \<noteq> n"
  shows "map_of (nameToOpcode (parse_lines loader ls)) n = map_of (nameToOpcode loader) n"
  using assms
proof (induction ls arbitrary: loader)
  case Nil
  then show ?case by simp
next
  case (Cons l ls)
  then show ?case
    by (cases "well_formed l") (auto simp add: parse_line_skip parse_line_well_formed update_conv')
qed

lemma dom_parse_lines:
  "dom (map_of (mappings (parse_lines loader ls)))
     = dom (map_of (mappings loader)) \<union> line_opcode ` set (filter well_formed ls)"
proof (induction ls arbitrary: loader)
  case Nil
  then show ?case by simp
next
  case (Cons l ls)
  then show ?case
    by (cases "well_formed l") (auto simp add: parse_line_skip parse_line_well_formed update_conv')
qed

lemma distinct_parse_lines:
  "distinct (map fst (mappings loader)) \<Longrightarrow> distinct (map fst (mappings (parse_lines loader ls)))"
proof (induction ls arbitrary: loader)
  case Nil
  then show ?case by simp
next
  case (Cons l ls)
  then show ?case
    by (cases "well_formed l") (simp_all add: parse_line_skip parse_line_well_formed distinct_update)
qed

lemma length_distinct_alist:
  "distinct (map fst al) \<Longrightarrow> length al = card (dom (map_of al))"
  by (metis distinct_card dom_map_of_conv_image_fst length_map list.set_map)

text \<open>
  C6, amended. After parsing, for every well-formed line of the file: when no later
  well-formed line declares the same opcode, \<open>getMapping\<close> of its opcode returns the
  definition of that line, whose name is the name of the line; when no later well-formed
  line declares the same name, \<open>getOpcodeByName\<close> of its name returns its opcode. So of
  two well-formed lines that declare the same opcode, or the same name, the later one is
  the one returned.
\<close>

theorem parse_last_definition_wins:
  assumes "split_lines [] content = before @ line # after" and "well_formed line"
  shows "((\<forall>l \<in> set after. well_formed l \<longrightarrow> line_opcode l \<noteq> line_opcode line) \<longrightarrow>
            getMapping (fst (parseFromString content)) (line_opcode line) = Some (line_def line)
            \<and> name (line_def line) = line_name line)
       \<and> ((\<forall>l \<in> set after. well_formed l \<longrightarrow> line_name l \<noteq> line_name line) \<longrightarrow>
            getOpcodeByName (fst (parseFromString content)) (line_name line) = Some (line_opcode line))"
proof -
  let ?l0 = "parse_lines new_mappings before"
  have t: "fst (parseFromString content) = parse_lines (parse_line ?l0 line) after"
    by (simp add: parseFromString_def assms(1) parse_lines_append Let_def)
  have a: "map_of (mappings (parse_line ?l0 line)) (line_opcode line) = Some (line_def line)"
    by (simp add: parse_line_well_formed[OF assms(2)] update_conv')
  have b: "map_of (nameToOpcode (parse_line ?l0 line)) (line_name line) = Some (line_opcode line)"
    by (simp add: parse_line_well_formed[OF assms(2)] update_conv')
  show ?thesis
    unfolding t getMapping_def getOpcodeByName_def
    using a b by (simp add: mappings_unchanged names_unchanged line_def_def)
qed

text \<open>
  C6, as stated, fails: in the file of the two lines \<open>1 a int\<close> and \<open>2 a int\<close> both lines
  are well-formed and declare different opcodes, and \<open>getOpcodeByName\<close> of the name \<open>a\<close>
  of the first line returns 2, not its opcode 1.
\<close>

theorem parse_name_counterexample:
  "split_lines [] (str ''1 a int'' @ [10] @ str ''2 a int'') = [str ''1 a int'', str ''2 a int'']
   \<and> well_formed (str ''1 a int'') \<and> well_formed (str ''2 a int'')
   \<and> line_opcode (str ''1 a int'') = Num 1 \<and> line_name (str ''1 a int'') = str ''a''
   \<and> line_opcode (str ''2 a int'') = Num 2
   \<and> getOpcodeByName (fst (parseFromString (str ''1 a int'' @ [10] @ str ''2 a int''))) (str ''a'')
       = Some (Num 2)"
  by (simp add: parse_eval table_eval)


theorem parse_last_definition_wins_witness:
  "getMapping (fst (parseFromString example_content)) (Num 2)
     = Some \<lparr>opcode = Num 2, name = str ''push_string'', returnType = str ''void'',
              paramTypes = [str ''string'']\<rparr>
   \<and> getOpcodeByName (fst (parseFromString example_content)) (str ''push_string'') = Some (Num 2)
   \<and> getMapping (fst (parseFromString (str ''5 first void'' @ [10] @ str ''5 second void int''))) (Num 5)
     = Some \<lparr>opcode = Num 5, name = str ''second'', returnType = str ''void'',
              paramTypes = [str ''int'']\<rparr>"
proof -
  let ?line = "str ''  2   push_string void string  '' @ [13]"
  have split: "split_lines [] example_content
      = [str ''# opcodes'', str ''1 push_int void int'', str ''oops'', []] @ ?line
          # [str ''x y z'', str ''0x10 pop void'']"
    by (simp add: example_content_def str_def)
  have wf: "well_formed ?line" by (simp add: parse_eval)
  have line: "line_opcode ?line = Num 2" "line_name ?line = str ''push_string''"
    "line_def ?line = \<lparr>opcode = Num 2, name = str ''push_string'', returnType = str ''void'',
              paramTypes = [str ''string'']\<rparr>"
    by (simp_all add: parse_eval)
  have after: "\<not> well_formed (str ''x y z'')" "line_opcode (str ''0x10 pop void'') = Num 16"
    "line_name (str ''0x10 pop void'') = str ''pop''"
    by (simp_all add: parse_eval)
  have ne: "str ''pop'' \<noteq> str ''push_string''" by (simp add: str_def)
  have split2: "split_lines [] (str ''5 first void'' @ [10] @ str ''5 second void int'')
      = [str ''5 first void''] @ str ''5 second void int'' # []"
    by (simp add: str_def)
  have wf2: "well_formed (str ''5 second void int'')" by (simp add: parse_eval)
  have line2: "line_opcode (str ''5 second void int'') = Num 5"
    "line_def (str ''5 second void int'') = \<lparr>opcode = Num 5, name = str ''second'', returnType = str ''void'',
              paramTypes = [str ''int'']\<rparr>"
    by (simp_all add: parse_eval)
  show ?thesis
    using parse_last_definition_wins [OF split wf] parse_last_definition_wins [OF split2 wf2]
    by (simp add: line after ne line2)
qed

lemma length_mappings_card:
  "length (mappings (parse_lines new_mappings ls)) = card (line_opcode ` set (filter well_formed ls))"
proof -
  have "distinct (map fst (mappings (parse_lines new_mappings ls)))"
    by (rule distinct_parse_lines) (simp add: new_mappings_def)
  then have "length (mappings (parse_lines new_mappings ls))
      = card (dom (map_of (mappings (parse_lines new_mappings ls))))"
    by (rule length_distinct_alist)
  then show ?thesis
    by (simp add: dom_parse_lines new_mappings_def)
qed

text \<open>
  C7, amended. A malformed line leaves the loader as it was and parsing goes on: the table
  of a file is the table of its well-formed lines alone, it has an entry for exactly the
  opcodes those lines declare, and its size is the number of distinct opcodes among them,
  which is the number of well-formed lines when no opcode is declared twice.
\<close>

theorem parse_skips_malformed:
  "(malformed line \<longrightarrow> parse_line loader line = loader)
   \<and> fst (parseFromString content)
       = parse_lines new_mappings (filter well_formed (split_lines [] content))
   \<and> (hasOpcode (fst (parseFromString content)) k
        \<longleftrightarrow> k \<in> line_opcode ` set (filter well_formed (split_lines [] content)))
   \<and> length (mappings (fst (parseFromString content)))
       = card (line_opcode ` set (filter well_formed (split_lines [] content)))
   \<and> (distinct (map line_opcode (filter well_formed (split_lines [] content))) \<longrightarrow>
        length (mappings (fst (parseFromString content)))
          = length (filter well_formed (split_lines [] content)))"
proof -
  let ?ls = "split_lines [] content"
  have t: "fst (parseFromString content) = parse_lines new_mappings ?ls"
    by (simp add: parseFromString_def Let_def)
  have 1: "malformed line \<longrightarrow> parse_line loader line = loader"
    by (auto simp add: malformed_def well_formed_def intro: parse_line_skip)
  have 2: "parse_lines new_mappings ?ls = parse_lines new_mappings (filter well_formed ?ls)"
    by (rule parse_lines_filter)
  have 3: "hasOpcode (parse_lines new_mappings ?ls) k
        \<longleftrightarrow> k \<in> line_opcode ` set (filter well_formed ?ls)"
    using dom_parse_lines [of new_mappings ?ls]
    by (auto simp add: hasOpcode_def new_mappings_def dom_def)
  have 4: "length (mappings (parse_lines new_mappings ?ls))
       = card (line_opcode ` set (filter well_formed ?ls))"
    by (rule length_mappings_card)
  have 5: "length (mappings (parse_lines new_mappings ?ls)) = length (filter well_formed ?ls)"
    if "distinct (map line_opcode (filter well_formed ?ls))"
    using distinct_card [OF that] 4 by simp
  show ?thesis
    unfolding t using 1 2 3 4 5 by blast
qed

text \<open>
  C7, as stated, fails: the file of the two lines \<open>1 a int\<close> and \<open>1 b int\<close> has two valid
  lines and no malformed one, and its table has size 1.
\<close>

theorem parse_size_counterexample:
  "filter well_formed (split_lines [] (str ''1 a int'' @ [10] @ str ''1 b int''))
     = [str ''1 a int'', str ''1 b int'']
   \<and> length (mappings (fst (parseFromString (str ''1 a int'' @ [10] @ str ''1 b int'')))) = 1"
  by (simp add: parse_eval table_eval)

theorem parse_skips_malformed_witness:
  "malformed (str ''oops'') \<and> malformed (str ''x y z'')
   \<and> parse_line new_mappings (str ''x y z'') = new_mappings
   \<and> length (filter well_formed (split_lines [] example_content)) = 3
   \<and> length (mappings (fst (parseFromString example_content))) = 3
   \<and> hasOpcode (fst (parseFromString example_content)) (Num 16)"
proof -
  have m: "malformed (str ''oops'')" "malformed (str ''x y z'')" by (simp_all add: parse_eval)
  have ops: "map line_opcode (filter well_formed (split_lines [] example_content))
      = [Num 1, Num 2, Num 16]"
    by (simp add: example_content_def parse_eval)
  have len: "length (filter well_formed (split_lines [] example_content)) = 3"
    using arg_cong [OF ops, of length] by simp
  have img: "line_opcode ` set (filter well_formed (split_lines [] example_content))
      = {Num 1, Num 2, Num 16}"
    using arg_cong [OF ops, of set] by simp
  note th = parse_skips_malformed [of "str ''x y z''" new_mappings example_content "Num 16"]
  have 1: "parse_line new_mappings (str ''x y z'') = new_mappings"
    using th m by blast
  have "hasOpcode (fst (parseFromString example_content)) (Num 16)
      \<longleftrightarrow> Num 16 \<in> {Num 1, Num 2, Num 16}"
    using th unfolding img by blast
  then have 2: "hasOpcode (fst (parseFromString example_content)) (Num 16)"
    by simp
  have "distinct [Num 1, Num 2, Num 16] \<longrightarrow>
      length (mappings (fst (parseFromString example_content))) = 3"
    using th unfolding ops len by blast
  then have 3: "length (mappings (fst (parseFromString example_content))) = 3"
    by simp
  show ?thesis
    using m 1 2 3 len by blast
qed

end
